theory Spec2Isabelle
  imports Main "HOL-Library.AList"
begin

section \<open>The room relay of the WebSocket server (class WSServer)\<close>

text \<open>
  The class \<^verbatim>\<open>WSServer\<close> keeps two insertion-ordered JavaScript maps, \<^verbatim>\<open>rooms\<close> and
  \<^verbatim>\<open>users\<close>, and reacts to the events of the socket library. Every handler runs to
  completion before the next event is taken (the handlers contain no suspension point
  before their last statement), so a handler is a function from the state before the
  event to the state after it.

  A JavaScript \<^verbatim>\<open>Map\<close> is an association list with distinct keys in insertion order:
  \<^verbatim>\<open>get\<close> is \<^const>\<open>map_of\<close>, \<^verbatim>\<open>set\<close> is \<^const>\<open>AList.update\<close> (the value of a present key
  is replaced in place, a new key is appended), \<^verbatim>\<open>delete\<close> is \<^const>\<open>AList.delete\<close>,
  \<^verbatim>\<open>size\<close> is \<^const>\<open>length\<close> and \<^verbatim>\<open>values()\<close> is \<^term>\<open>map snd\<close>.

  What lies outside the class is made explicit:
  \<^item> \<^verbatim>\<open>uuidv4()\<close> is a supply of identifiers that never repeats; the n-th identifier
    drawn is the number n;
  \<^item> \<^verbatim>\<open>Date.now()\<close> is an argument of the handler (the time of the event);
  \<^item> a socket is a handle; its \<^verbatim>\<open>readyState\<close> and whether its \<^verbatim>\<open>send\<close> throws belong to
    the environment and are read from the state;
  \<^item> what \<^verbatim>\<open>ws.send\<close> puts on a socket, and the error that \<^verbatim>\<open>sendToUser\<close> logs when
    \<^verbatim>\<open>send\<close> throws, are appended to a trace. The informational log lines are left out.
\<close>

subsection \<open>Data\<close>

type_synonym uuid = nat
type_synonym sock = nat

datatype UserRole = product_manager | developer

datatype ready_state = CONNECTING | OPEN | CLOSING | CLOSED

record User =
  user_id :: uuid
  user_socket :: sock
  user_role :: UserRole
  user_name :: string
  user_roomId :: uuid
  user_joinedAt :: nat

record Room =
  room_id :: uuid
  room_name :: string
  room_users :: "(uuid \<times> User) list"
  room_createdAt :: nat

text \<open>The projection \<^verbatim>\<open>{id, name, role}\<close> of a user that the notifications carry.\<close>

datatype user_info = UserInfo (info_id: uuid) (info_name: string) (info_role: UserRole)

text \<open>
  The text of a system message is the user's name followed by a fixed phrase, one for
  joining and one for leaving; the sender name of a system message is a constant.
\<close>

datatype system_text = joined_the_room string | left_the_room string

datatype system_message =
  SystemMessage (sm_id: uuid) (sm_content: system_text) (sm_timestamp: nat)

datatype ChatMessage =
  ChatMessage (cm_id: uuid) (cm_userId: uuid) (cm_userName: string) (cm_userRole: UserRole)
    (cm_content: "string option") (cm_timestamp: nat)

text \<open>
  The texts of the error replies. \<open>type_error\<close> stands for the message of the
  \<^verbatim>\<open>TypeError\<close> that the runtime throws when a property of \<^verbatim>\<open>null\<close> or \<^verbatim>\<open>undefined\<close> is read.
\<close>

datatype error_text =
  bad_message_format
  | unknown_message_type
  | missing_parameters
  | invalid_user_role
  | user_not_in_any_room
  | room_does_not_exist
  | type_error

text \<open>The frames the server sends, tagged by their \<^verbatim>\<open>type\<close>.\<close>

datatype out_message =
  connection_established uuid
  | room_joined uuid string nat
  | user_joined user_info "user_info list" system_message
  | user_left user_info "user_info list" system_message
  | chat_message_out ChatMessage
  | user_list "user_info list"
  | error_reply error_text

text \<open>
  Inbound frames. The fields of a payload are strings or absent, as in the wire format;
  a payload that is \<^verbatim>\<open>null\<close> or missing is \<open>None\<close>. \<open>other_type\<close> is a parsed value whose
  \<^verbatim>\<open>type\<close> is none of the four commands, \<open>json_null\<close> is the frame \<^verbatim>\<open>null\<close>, \<open>not_json\<close> is a
  frame on which \<^verbatim>\<open>JSON.parse\<close> throws.
\<close>

record join_payload =
  roomName :: "string option"
  userName :: "string option"
  userRole :: "string option"

datatype chat_payload = ChatPayload (content: "string option")

datatype WSMessage =
  join_room "join_payload option"
  | chat_message "chat_payload option"
  | leave_room
  | list_users
  | other_type

datatype frame = not_json | json_null | json WSMessage

datatype wire_event = Sent sock out_message | SendFailed sock out_message

text \<open>
  The state: the two maps of the class, the listeners registered on the sockets (each
  closes over the pair of the session identifier and the socket of its connection),
  the identifier supply, the environment of the sockets and the trace.
\<close>

record world =
  rooms :: "(uuid \<times> Room) list"
  users :: "(uuid \<times> User) list"
  listeners :: "(uuid \<times> sock) list"
  uuid_next :: uuid
  readyState :: "sock \<Rightarrow> ready_state"
  sendThrows :: "sock \<Rightarrow> bool"
  wire :: "wire_event list"

subsection \<open>Sending\<close>

definition uuidv4 :: "world \<Rightarrow> uuid \<times> world" where
  "uuidv4 w = (uuid_next w, w\<lparr>uuid_next := Suc (uuid_next w)\<rparr>)"

definition sendToUser :: "world \<Rightarrow> sock \<Rightarrow> out_message \<Rightarrow> world" where
  "sendToUser w ws message =
     (if readyState w ws = OPEN then
        (if sendThrows w ws then w\<lparr>wire := wire w @ [SendFailed ws message]\<rparr>
         else w\<lparr>wire := wire w @ [Sent ws message]\<rparr>)
      else w)"

definition sendError :: "world \<Rightarrow> sock \<Rightarrow> error_text \<Rightarrow> world" where
  "sendError w ws e = sendToUser w ws (error_reply e)"

text \<open>The body of \<^verbatim>\<open>room.users.forEach\<close> in \<^verbatim>\<open>broadcastToRoom\<close>, one member after the other.\<close>

fun broadcast_forEach ::
  "world \<Rightarrow> (uuid \<times> User) list \<Rightarrow> out_message \<Rightarrow> uuid option \<Rightarrow> world" where
  "broadcast_forEach w [] message excludeUserId = w"
| "broadcast_forEach w ((userId, user) # rest) message excludeUserId =
     broadcast_forEach
       (if Some userId \<noteq> excludeUserId \<and> readyState w (user_socket user) = OPEN
        then sendToUser w (user_socket user) message else w)
       rest message excludeUserId"

definition broadcastToRoom :: "world \<Rightarrow> uuid \<Rightarrow> out_message \<Rightarrow> uuid option \<Rightarrow> world" where
  "broadcastToRoom w roomId message excludeUserId =
     (case map_of (rooms w) roomId of
        None \<Rightarrow> w
      | Some room \<Rightarrow> broadcast_forEach w (room_users room) message excludeUserId)"

definition info_of :: "User \<Rightarrow> user_info" where
  "info_of user = UserInfo (user_id user) (user_name user) (user_role user)"

definition getRoomUsers :: "world \<Rightarrow> uuid \<Rightarrow> user_info list" where
  "getRoomUsers w roomId =
     (case map_of (rooms w) roomId of
        None \<Rightarrow> []
      | Some room \<Rightarrow> map info_of (map snd (room_users room)))"

definition sendUserList :: "world \<Rightarrow> uuid \<Rightarrow> world" where
  "sendUserList w userId =
     (case map_of (users w) userId of
        None \<Rightarrow> w
      | Some user \<Rightarrow>
          (case map_of (rooms w) (user_roomId user) of
             None \<Rightarrow> w
           | Some room \<Rightarrow>
               sendToUser w (user_socket user) (user_list (getRoomUsers w (room_id room)))))"

definition handleListUsers :: "world \<Rightarrow> uuid \<Rightarrow> world" where
  "handleListUsers w userId =
     (case map_of (users w) userId of
        None \<Rightarrow> w
      | Some user \<Rightarrow> sendUserList w userId)"

subsection \<open>Leaving, joining, chatting\<close>

text \<open>
  \<^verbatim>\<open>handleLeaveRoom\<close>. The room object is the one stored under the key \<^verbatim>\<open>user.roomId\<close>;
  deleting the user from \<^verbatim>\<open>room.users\<close> changes it in the directory. The broadcast and
  the final deletion address the room by its own \<^verbatim>\<open>id\<close> field.
\<close>

definition handleLeaveRoom :: "world \<Rightarrow> uuid \<Rightarrow> nat \<Rightarrow> world" where
  "handleLeaveRoom w userId now =
     (case map_of (users w) userId of
        None \<Rightarrow> w
      | Some user \<Rightarrow>
          (case map_of (rooms w) (user_roomId user) of
             None \<Rightarrow> w
           | Some room0 \<Rightarrow>
               let room = room0\<lparr>room_users := AList.delete userId (room_users room0)\<rparr>;
                   w1 = w\<lparr>rooms := AList.update (user_roomId user) room (rooms w),
                          users := AList.delete userId (users w)\<rparr>;
                   members = getRoomUsers w1 (room_id room);
                   (mid, w2) = uuidv4 w1;
                   w3 = broadcastToRoom w2 (room_id room)
                          (user_left (info_of user) members
                             (SystemMessage mid (left_the_room (user_name user)) now))
                          None
               in if length (room_users room) = 0
                  then w3\<lparr>rooms := AList.delete (room_id room) (rooms w3)\<rparr>
                  else w3))"

text \<open>
  A handler declared \<^verbatim>\<open>async\<close> that throws rejects its promise; the state at the throw
  stays as it is. The result is \<open>Inl\<close> of the error text and that state, or \<open>Inr\<close> of the
  state at the normal end.
\<close>

type_synonym outcome = "(error_text \<times> world) + world"

text \<open>
  The lookup \<^verbatim>\<open>Array.from(this.rooms.values()).find(r => r.name === roomName)\<close>, together
  with the creation of the room when there is none. The key under which the room object
  sits in the directory is returned with it, since the caller changes the object in place.
\<close>

definition find_or_create_room :: "world \<Rightarrow> string \<Rightarrow> nat \<Rightarrow> uuid \<times> Room \<times> world" where
  "find_or_create_room w name now =
     (case find (\<lambda>(k, r). room_name r = name) (rooms w) of
        Some (k, existingRoom) \<Rightarrow> (k, existingRoom, w)
      | None \<Rightarrow>
          let (rid, w') = uuidv4 w;
              room = \<lparr>room_id = rid, room_name = name, room_users = [], room_createdAt = now\<rparr>
          in (rid, room, w'\<lparr>rooms := AList.update rid room (rooms w')\<rparr>))"

definition as_UserRole :: "string \<Rightarrow> UserRole" where
  "as_UserRole s = (if s = ''product_manager'' then product_manager else developer)"

text \<open>
  The part of \<^verbatim>\<open>handleJoinRoom\<close> after the two checks, for the three strings of the payload.
\<close>

definition join_validated ::
  "world \<Rightarrow> uuid \<Rightarrow> sock \<Rightarrow> string \<Rightarrow> string \<Rightarrow> string \<Rightarrow> nat \<Rightarrow> world" where
  "join_validated w userId ws rn un ur now =
     (let w1 = handleLeaveRoom w userId now;
          (key, room0, w2) = find_or_create_room w1 rn now;
          user = \<lparr>user_id = userId, user_socket = ws, user_role = as_UserRole ur,
                  user_name = un, user_roomId = room_id room0, user_joinedAt = now\<rparr>;
          room = room0\<lparr>room_users := AList.update userId user (room_users room0)\<rparr>;
          w3 = w2\<lparr>rooms := AList.update key room (rooms w2),
                  users := AList.update userId user (users w2)\<rparr>;
          w4 = sendToUser w3 ws
                 (room_joined (room_id room) (room_name room) (length (room_users room)));
          members = getRoomUsers w4 (room_id room);
          (mid, w5) = uuidv4 w4;
          w6 = broadcastToRoom w5 (room_id room)
                 (user_joined (info_of user) members
                    (SystemMessage mid (joined_the_room un) now))
                 (Some userId)
      in sendUserList w6 userId)"

text \<open>
  \<^verbatim>\<open>handleJoinRoom\<close>. Destructuring a payload that is \<^verbatim>\<open>null\<close> or \<^verbatim>\<open>undefined\<close> throws. A
  field is falsy when it is absent or the empty string.
\<close>

definition handleJoinRoom :: "world \<Rightarrow> uuid \<Rightarrow> sock \<Rightarrow> join_payload option \<Rightarrow> nat \<Rightarrow> outcome" where
  "handleJoinRoom w userId ws payload now =
     (case payload of
        None \<Rightarrow> Inl (type_error, w)
      | Some p \<Rightarrow>
          (case (roomName p, userName p, userRole p) of
             (Some rn, Some un, Some ur) \<Rightarrow>
               if rn = [] \<or> un = [] \<or> ur = [] then Inr (sendError w ws missing_parameters)
               else if ur \<noteq> ''product_manager'' \<and> ur \<noteq> ''developer''
                 then Inr (sendError w ws invalid_user_role)
               else Inr (join_validated w userId ws rn un ur now)
           | _ \<Rightarrow> Inr (sendError w ws missing_parameters)))"

text \<open>
  \<^verbatim>\<open>handleChatMessage\<close>. In the object literal of the chat message the identifier is drawn
  before \<^verbatim>\<open>payload.content\<close> is read, which throws on a payload that is \<^verbatim>\<open>null\<close> or
  \<^verbatim>\<open>undefined\<close>.
\<close>

definition handleChatMessage :: "world \<Rightarrow> uuid \<Rightarrow> chat_payload option \<Rightarrow> nat \<Rightarrow> outcome" where
  "handleChatMessage w userId payload now =
     (case map_of (users w) userId of
        None \<Rightarrow> Inl (user_not_in_any_room, w)
      | Some user \<Rightarrow>
          (case map_of (rooms w) (user_roomId user) of
             None \<Rightarrow> Inl (room_does_not_exist, w)
           | Some room \<Rightarrow>
               let (mid, w1) = uuidv4 w in
               (case payload of
                  None \<Rightarrow> Inl (type_error, w1)
                | Some p \<Rightarrow>
                    Inr (broadcastToRoom w1 (room_id room)
                           (chat_message_out
                              (ChatMessage mid (user_id user) (user_name user) (user_role user)
                                 (content p) now))
                           (Some userId)))))"

subsection \<open>Dispatch and the events of a connection\<close>

text \<open>
  \<^verbatim>\<open>handleMessage\<close>: the \<^verbatim>\<open>catch\<close> turns a thrown error into an error reply carrying its
  message (everything thrown here is an \<^verbatim>\<open>Error\<close>).
\<close>

definition caught :: "sock \<Rightarrow> outcome \<Rightarrow> world" where
  "caught ws r = (case r of Inl (e, w') \<Rightarrow> sendError w' ws e | Inr w' \<Rightarrow> w')"

definition handleMessage :: "world \<Rightarrow> uuid \<Rightarrow> sock \<Rightarrow> WSMessage \<Rightarrow> nat \<Rightarrow> world" where
  "handleMessage w userId ws message now =
     (case message of
        join_room payload \<Rightarrow> caught ws (handleJoinRoom w userId ws payload now)
      | chat_message payload \<Rightarrow> caught ws (handleChatMessage w userId payload now)
      | leave_room \<Rightarrow> handleLeaveRoom w userId now
      | list_users \<Rightarrow> handleListUsers w userId
      | other_type \<Rightarrow> sendError w ws unknown_message_type)"

definition handleDisconnect :: "world \<Rightarrow> uuid \<Rightarrow> nat \<Rightarrow> world" where
  "handleDisconnect w userId now = handleLeaveRoom w userId now"

text \<open>
  The listener of \<^verbatim>\<open>'message'\<close>. Reading \<^verbatim>\<open>message.type\<close> of the parsed value \<^verbatim>\<open>null\<close> throws
  inside \<^verbatim>\<open>handleMessage\<close>, whose \<^verbatim>\<open>catch\<close> replies with the error's message.
\<close>

definition on_message :: "world \<Rightarrow> uuid \<Rightarrow> sock \<Rightarrow> frame \<Rightarrow> nat \<Rightarrow> world" where
  "on_message w userId ws data now =
     (case data of
        not_json \<Rightarrow> sendError w ws bad_message_format
      | json_null \<Rightarrow> sendError w ws type_error
      | json message \<Rightarrow> handleMessage w userId ws message now)"

text \<open>
  The listener of \<^verbatim>\<open>'connection'\<close>: it draws the session identifier, registers the
  listeners of the socket and sends the greeting.
\<close>

definition on_connection :: "world \<Rightarrow> sock \<Rightarrow> world" where
  "on_connection w ws =
     (let (userId, w1) = uuidv4 w;
          w2 = w1\<lparr>listeners := listeners w1 @ [(userId, ws)]\<rparr>
      in sendToUser w2 ws (connection_established userId))"




subsection \<open>Runs of the server\<close>

text \<open>
  The constructor leaves both maps empty. The events: a connection on a socket that no
  listener holds; a frame, a transport error or a close on a connection that has
  listeners (after the close the listeners are gone); and changes of the environment of
  a socket. An event that cannot occur in the state leaves it as it is.
\<close>

definition WSServer :: "(sock \<Rightarrow> ready_state) \<Rightarrow> (sock \<Rightarrow> bool) \<Rightarrow> world" where
  "WSServer rs st =
     \<lparr>rooms = [], users = [], listeners = [], uuid_next = 0,
      readyState = rs, sendThrows = st, wire = []\<rparr>"

datatype event =
  Connection sock
  | Message uuid sock frame nat
  | SocketError uuid nat
  | Close uuid nat
  | SetReadyState sock ready_state
  | SetSendThrows sock bool

fun step :: "world \<Rightarrow> event \<Rightarrow> world" where
  "step w (Connection ws) =
     (if ws \<in> snd ` set (listeners w) then w else on_connection w ws)"
| "step w (Message userId ws data now) =
     (if (userId, ws) \<in> set (listeners w) then on_message w userId ws data now else w)"
| "step w (SocketError userId now) =
     (if userId \<in> fst ` set (listeners w) then handleDisconnect w userId now else w)"
| "step w (Close userId now) =
     (if userId \<in> fst ` set (listeners w)
      then (handleDisconnect w userId now)
             \<lparr>listeners := filter (\<lambda>(u, s). u \<noteq> userId) (listeners w)\<rparr>
      else w)"
| "step w (SetReadyState ws s) = w\<lparr>readyState := (readyState w)(ws := s)\<rparr>"
| "step w (SetSendThrows ws b) = w\<lparr>sendThrows := (sendThrows w)(ws := b)\<rparr>"

definition run :: "world \<Rightarrow> event list \<Rightarrow> world" where
  "run w evs = foldl step w evs"

subsection \<open>What a handler puts on the wire\<close>

text \<open>
  The trace of one call of \<^verbatim>\<open>sendToUser\<close>: nothing on a socket that is not open, else the
  frame, or the logged failure when \<^verbatim>\<open>send\<close> throws. The trace of a broadcast is the
  concatenation of these for the members other than the excluded one, in the order of
  the membership map.
\<close>

definition attempt :: "world \<Rightarrow> sock \<Rightarrow> out_message \<Rightarrow> wire_event list" where
  "attempt w ws message =
     (if readyState w ws = OPEN
      then [if sendThrows w ws then SendFailed ws message else Sent ws message]
      else [])"

definition deliveries ::
  "world \<Rightarrow> (uuid \<times> User) list \<Rightarrow> out_message \<Rightarrow> uuid option \<Rightarrow> wire_event list" where
  "deliveries w members message excludeUserId =
     concat (map (\<lambda>(userId, user). attempt w (user_socket user) message)
                 (filter (\<lambda>(userId, user). Some userId \<noteq> excludeUserId) members))"

fun event_sock :: "wire_event \<Rightarrow> sock" where
  "event_sock (Sent ws message) = ws"
| "event_sock (SendFailed ws message) = ws"

fun event_message :: "wire_event \<Rightarrow> out_message" where
  "event_message (Sent ws message) = message"
| "event_message (SendFailed ws message) = message"

text \<open>The room a join creates, the user record it stores, and the state it ends in.\<close>

definition new_room :: "uuid \<Rightarrow> string \<Rightarrow> nat \<Rightarrow> Room" where
  "new_room rid name now =
     \<lparr>room_id = rid, room_name = name, room_users = [], room_createdAt = now\<rparr>"

definition joined_user :: "uuid \<Rightarrow> sock \<Rightarrow> string \<Rightarrow> string \<Rightarrow> uuid \<Rightarrow> nat \<Rightarrow> User" where
  "joined_user userId ws un ur rid now =
     \<lparr>user_id = userId, user_socket = ws, user_role = as_UserRole ur,
      user_name = un, user_roomId = rid, user_joinedAt = now\<rparr>"

definition joined_world ::
  "world \<Rightarrow> uuid \<Rightarrow> sock \<Rightarrow> string \<Rightarrow> uuid \<Rightarrow> Room \<Rightarrow> User \<Rightarrow> uuid \<Rightarrow> nat \<Rightarrow> world" where
  "joined_world w1 userId ws un k room0 user mid now =
     (let room = room0\<lparr>room_users := AList.update userId user (room_users room0)\<rparr>;
          members = map info_of (map snd (room_users room))
      in w1\<lparr>rooms := AList.update k room (rooms w1),
             users := AList.update userId user (users w1),
             uuid_next := Suc mid,
             wire := wire w1
               @ attempt w1 ws
                   (room_joined (room_id room) (room_name room) (length (room_users room)))
               @ deliveries w1 (room_users room)
                   (user_joined (info_of user) members
                      (SystemMessage mid (joined_the_room un) now))
                   (Some userId)
               @ attempt w1 ws (user_list members)\<rparr>)"

subsection \<open>Invariants of the two maps\<close>

definition inv_keys :: "world \<Rightarrow> bool" where
  "inv_keys w \<longleftrightarrow>
     distinct (map fst (rooms w)) \<and> distinct (map fst (users w)) \<and>
     (\<forall>k r. map_of (rooms w) k = Some r \<longrightarrow>
        room_id r = k \<and> k < uuid_next w \<and> distinct (map fst (room_users r)))"

definition inv_nonempty :: "world \<Rightarrow> bool" where
  "inv_nonempty w \<longleftrightarrow> (\<forall>k r. map_of (rooms w) k = Some r \<longrightarrow> room_users r \<noteq> [])"

definition inv_names :: "world \<Rightarrow> bool" where
  "inv_names w \<longleftrightarrow>
     (\<forall>k r k' r'. map_of (rooms w) k = Some r \<longrightarrow> map_of (rooms w) k' = Some r' \<longrightarrow>
        room_name r = room_name r' \<longrightarrow> k = k')"

definition inv_members :: "world \<Rightarrow> bool" where
  "inv_members w \<longleftrightarrow>
     (\<forall>k r uid u. map_of (rooms w) k = Some r \<longrightarrow> map_of (room_users r) uid = Some u \<longrightarrow>
        map_of (users w) uid = Some u \<and> user_roomId u = k) \<and>
     (\<forall>uid u. map_of (users w) uid = Some u \<longrightarrow>
        user_id u = uid \<and>
        (\<exists>r. map_of (rooms w) (user_roomId u) = Some r \<and> map_of (room_users r) uid = Some u))"

definition inv_count :: "world \<Rightarrow> bool" where
  "inv_count w \<longleftrightarrow>
     length (users w) = sum_list (map (\<lambda>(k, r). length (room_users r)) (rooms w))"

definition inv_listeners :: "world \<Rightarrow> bool" where
  "inv_listeners w \<longleftrightarrow>
     distinct (map fst (listeners w)) \<and> distinct (map snd (listeners w)) \<and>
     (\<forall>uid s. (uid, s) \<in> set (listeners w) \<longrightarrow> uid < uuid_next w) \<and>
     (\<forall>uid u. map_of (users w) uid = Some u \<longrightarrow> (uid, user_socket u) \<in> set (listeners w))"

definition consistent :: "world \<Rightarrow> bool" where
  "consistent w \<longleftrightarrow>
     inv_keys w \<and> inv_nonempty w \<and> inv_names w \<and> inv_members w \<and> inv_count w \<and>
     inv_listeners w"

subsection \<open>Scenarios\<close>

text \<open>
  Concrete runs for the examples: every socket open and no send failing at the start,
  sessions joining the room \<open>alpha\<close> one after the other, and the states these runs end in.
\<close>

definition join_as :: "string \<Rightarrow> string \<Rightarrow> string \<Rightarrow> frame" where
  "join_as rn un ur =
     json (join_room (Some \<lparr>roomName = Some rn, userName = Some un, userRole = Some ur\<rparr>))"

definition all_open :: world where
  "all_open = WSServer (\<lambda>ws. OPEN) (\<lambda>ws. False)"

definition Alice :: User where
  "Alice = \<lparr>user_id = 0, user_socket = 10, user_role = product_manager,
            user_name = ''Alice'', user_roomId = 2, user_joinedAt = 100\<rparr>"

definition Bob :: User where
  "Bob = \<lparr>user_id = 1, user_socket = 11, user_role = developer,
          user_name = ''Bob'', user_roomId = 2, user_joinedAt = 101\<rparr>"

definition Carol :: User where
  "Carol = \<lparr>user_id = 5, user_socket = 12, user_role = developer,
            user_name = ''Carol'', user_roomId = 2, user_joinedAt = 102\<rparr>"

definition Dave :: User where
  "Dave = \<lparr>user_id = 7, user_socket = 13, user_role = developer,
           user_name = ''Dave'', user_roomId = 2, user_joinedAt = 103\<rparr>"

definition alpha :: "(uuid \<times> User) list \<Rightarrow> Room" where
  "alpha members =
     \<lparr>room_id = 2, room_name = ''alpha'', room_users = members, room_createdAt = 100\<rparr>"

definition connected :: "event list" where
  "connected = [Connection 10, Connection 11]"

definition one_in_alpha :: "event list" where
  "one_in_alpha = connected @ [Message 0 10 (join_as ''alpha'' ''Alice'' ''product_manager'') 100]"

definition two_in_alpha :: "event list" where
  "two_in_alpha = one_in_alpha @ [Message 1 11 (join_as ''alpha'' ''Bob'' ''developer'') 101]"

definition mixed_room :: "event list" where
  "mixed_room = two_in_alpha @
     [Connection 12, Message 5 12 (join_as ''alpha'' ''Carol'' ''developer'') 102,
      Connection 13, Message 7 13 (join_as ''alpha'' ''Dave'' ''developer'') 103,
      SetReadyState 12 CLOSED, SetSendThrows 13 True]"

definition wire_connected :: "wire_event list" where
  "wire_connected = [Sent 10 (connection_established 0), Sent 11 (connection_established 1)]"

definition wire_one :: "wire_event list" where
  "wire_one = wire_connected @
     [Sent 10 (room_joined 2 ''alpha'' 1),
      Sent 10 (user_list [UserInfo 0 ''Alice'' product_manager])]"

definition wire_two :: "wire_event list" where
  "wire_two = wire_one @
     [Sent 11 (room_joined 2 ''alpha'' 2),
      Sent 10 (user_joined (UserInfo 1 ''Bob'' developer)
                 [UserInfo 0 ''Alice'' product_manager, UserInfo 1 ''Bob'' developer]
                 (SystemMessage 4 (joined_the_room ''Bob'') 101)),
      Sent 11 (user_list [UserInfo 0 ''Alice'' product_manager, UserInfo 1 ''Bob'' developer])]"

definition two_connected :: world where
  "two_connected =
     \<lparr>rooms = [], users = [], listeners = [(0, 10), (1, 11)], uuid_next = 2,
      readyState = (\<lambda>ws. OPEN), sendThrows = (\<lambda>ws. False), wire = wire_connected\<rparr>"

definition alice_alone :: world where
  "alice_alone =
     \<lparr>rooms = [(2, alpha [(0, Alice)])], users = [(0, Alice)],
      listeners = [(0, 10), (1, 11)], uuid_next = 4,
      readyState = (\<lambda>ws. OPEN), sendThrows = (\<lambda>ws. False), wire = wire_one\<rparr>"

definition alice_and_bob :: world where
  "alice_and_bob =
     \<lparr>rooms = [(2, alpha [(0, Alice), (1, Bob)])], users = [(0, Alice), (1, Bob)],
      listeners = [(0, 10), (1, 11)], uuid_next = 5,
      readyState = (\<lambda>ws. OPEN), sendThrows = (\<lambda>ws. False), wire = wire_two\<rparr>"

definition roster :: "user_info list" where
  "roster = [info_of Alice, info_of Bob, info_of Carol, info_of Dave]"

definition wire_mixed :: "wire_event list" where
  "wire_mixed = wire_two @
     [Sent 12 (connection_established 5),
      Sent 12 (room_joined 2 ''alpha'' 3),
      Sent 10 (user_joined (info_of Carol) (take 3 roster)
                 (SystemMessage 6 (joined_the_room ''Carol'') 102)),
      Sent 11 (user_joined (info_of Carol) (take 3 roster)
                 (SystemMessage 6 (joined_the_room ''Carol'') 102)),
      Sent 12 (user_list (take 3 roster)),
      Sent 13 (connection_established 7),
      Sent 13 (room_joined 2 ''alpha'' 4),
      Sent 10 (user_joined (info_of Dave) roster
                 (SystemMessage 8 (joined_the_room ''Dave'') 103)),
      Sent 11 (user_joined (info_of Dave) roster
                 (SystemMessage 8 (joined_the_room ''Dave'') 103)),
      Sent 12 (user_joined (info_of Dave) roster
                 (SystemMessage 8 (joined_the_room ''Dave'') 103)),
      Sent 13 (user_list roster)]"

definition four_mixed :: world where
  "four_mixed =
     \<lparr>rooms = [(2, alpha [(0, Alice), (1, Bob), (5, Carol), (7, Dave)])],
      users = [(0, Alice), (1, Bob), (5, Carol), (7, Dave)],
      listeners = [(0, 10), (1, 11), (5, 12), (7, 13)], uuid_next = 9,
      readyState = (\<lambda>ws. OPEN)(12 := CLOSED), sendThrows = (\<lambda>ws. False)(13 := True),
      wire = wire_mixed\<rparr>"

definition hello :: out_message where
  "hello = chat_message_out (ChatMessage 9 0 ''Alice'' product_manager (Some ''hello'') 104)"

section \<open>Properties\<close>

subsection \<open>The trace of a send and of a broadcast\<close>

lemma attempt_upd [simp]:
  "attempt (w\<lparr>wire := x\<rparr>) = attempt w"
  "attempt (w\<lparr>rooms := r\<rparr>) = attempt w"
  "attempt (w\<lparr>users := u\<rparr>) = attempt w"
  "attempt (w\<lparr>listeners := l\<rparr>) = attempt w"
  "attempt (w\<lparr>uuid_next := n\<rparr>) = attempt w"
  by (simp_all add: attempt_def fun_eq_iff)

lemma deliveries_upd [simp]:
  "deliveries (w\<lparr>wire := x\<rparr>) = deliveries w"
  "deliveries (w\<lparr>rooms := r\<rparr>) = deliveries w"
  "deliveries (w\<lparr>users := u\<rparr>) = deliveries w"
  "deliveries (w\<lparr>listeners := l\<rparr>) = deliveries w"
  "deliveries (w\<lparr>uuid_next := n\<rparr>) = deliveries w"
  by (simp_all add: deliveries_def fun_eq_iff)

lemma deliveries_Nil [simp]: "deliveries w [] m ex = []"
  by (simp add: deliveries_def)

lemma deliveries_Cons:
  "deliveries w ((k, u) # us) m ex =
     (if Some k \<noteq> ex then attempt w (user_socket u) m else []) @ deliveries w us m ex"
  by (simp add: deliveries_def)

lemma sendToUser_eq: "sendToUser w ws m = w\<lparr>wire := wire w @ attempt w ws m\<rparr>"
  by (simp add: sendToUser_def attempt_def)

lemma broadcast_forEach_eq:
  "broadcast_forEach w us m ex = w\<lparr>wire := wire w @ deliveries w us m ex\<rparr>"
proof (induction us arbitrary: w)
  case Nil
  show ?case by simp
next
  case (Cons p us)
  obtain k u where p: "p = (k, u)" by (cases p)
  show ?case
    unfolding p
    by (simp add: Cons.IH deliveries_Cons sendToUser_eq attempt_def)
qed

lemma broadcastToRoom_eq:
  "broadcastToRoom w rid m ex =
     (case map_of (rooms w) rid of
        None \<Rightarrow> w
      | Some room \<Rightarrow> w\<lparr>wire := wire w @ deliveries w (room_users room) m ex\<rparr>)"
  by (simp add: broadcastToRoom_def broadcast_forEach_eq split: option.splits)

lemma handleLeaveRoom_eq:
  assumes "map_of (users w) userId = Some user"
    and "map_of (rooms w) (user_roomId user) = Some room"
    and "room_id room = user_roomId user"
  shows "handleLeaveRoom w userId now =
     w\<lparr>rooms := (if AList.delete userId (room_users room) = []
                  then AList.delete (room_id room) (rooms w)
                  else AList.update (room_id room)
                         (room\<lparr>room_users := AList.delete userId (room_users room)\<rparr>) (rooms w)),
        users := AList.delete userId (users w),
        uuid_next := Suc (uuid_next w),
        wire := wire w @ deliveries w (AList.delete userId (room_users room))
                  (user_left (info_of user)
                     (map info_of (map snd (AList.delete userId (room_users room))))
                     (SystemMessage (uuid_next w) (left_the_room (user_name user)) now))
                  None\<rparr>"
  using assms
  by (simp add: handleLeaveRoom_def Let_def uuidv4_def broadcastToRoom_eq getRoomUsers_def
      AList.update_conv' AList.delete_update_same)

subsection \<open>Leaving twice\<close>

lemma users_handleLeaveRoom:
  "users (handleLeaveRoom w userId now) =
     (case map_of (users w) userId of
        None \<Rightarrow> users w
      | Some user \<Rightarrow>
          (case map_of (rooms w) (user_roomId user) of
             None \<Rightarrow> users w
           | Some room \<Rightarrow> AList.delete userId (users w)))"
  by (simp add: handleLeaveRoom_def Let_def uuidv4_def broadcastToRoom_eq
      split: option.splits)

lemma handleLeaveRoom_no_user:
  "map_of (users w) userId = None \<Longrightarrow> handleLeaveRoom w userId now = w"
  by (simp add: handleLeaveRoom_def)

lemma handleLeaveRoom_no_room:
  "map_of (users w) userId = Some user \<Longrightarrow> map_of (rooms w) (user_roomId user) = None \<Longrightarrow>
   handleLeaveRoom w userId now = w"
  by (simp add: handleLeaveRoom_def)

text \<open>
  Claim C9. Leaving is idempotent. For a session that has no entry in the user map,
  \<^verbatim>\<open>handleLeaveRoom\<close>, the \<^verbatim>\<open>leave_room\<close> command and the disconnect handler return the
  state as it is: no error, no change of a map, nothing sent. In every state a second
  leave right after a first one changes nothing.
\<close>

theorem leaveRoom_idempotent:
  "(map_of (users w) userId = None \<longrightarrow>
      handleLeaveRoom w userId now = w \<and>
      handleMessage w userId ws leave_room now = w \<and>
      handleDisconnect w userId now = w) \<and>
   handleLeaveRoom (handleLeaveRoom w userId now) userId now' = handleLeaveRoom w userId now"
proof -
  have twice: "handleLeaveRoom (handleLeaveRoom w userId now) userId now' =
               handleLeaveRoom w userId now"
  proof (cases "map_of (users w) userId")
    case None
    then show ?thesis by (simp add: handleLeaveRoom_no_user)
  next
    case (Some user)
    show ?thesis
    proof (cases "map_of (rooms w) (user_roomId user)")
      case None
      with Some show ?thesis by (simp add: handleLeaveRoom_no_room)
    next
      case (Some room)
      with \<open>map_of (users w) userId = Some user\<close>
      have "users (handleLeaveRoom w userId now) = AList.delete userId (users w)"
        by (simp add: users_handleLeaveRoom)
      then have "map_of (users (handleLeaveRoom w userId now)) userId = None"
        by (simp add: AList.delete_conv')
      then show ?thesis by (rule handleLeaveRoom_no_user)
    qed
  qed
  show ?thesis
    by (simp add: twice handleLeaveRoom_no_user handleMessage_def handleDisconnect_def)
qed

theorem leaveRoom_idempotent_witness:
  "map_of (users (WSServer (\<lambda>s. OPEN) (\<lambda>s. False))) 0 = None \<and>
   handleLeaveRoom (WSServer (\<lambda>s. OPEN) (\<lambda>s. False)) 0 5 = WSServer (\<lambda>s. OPEN) (\<lambda>s. False) \<and>
   handleMessage (WSServer (\<lambda>s. OPEN) (\<lambda>s. False)) 0 7 leave_room 5 = WSServer (\<lambda>s. OPEN) (\<lambda>s. False)"
  using leaveRoom_idempotent [of "WSServer (\<lambda>s. OPEN) (\<lambda>s. False)" 0 5 7 6]
  by (simp add: WSServer_def)

subsection \<open>Association lists; leaving keeps the invariants\<close>

lemma update_fresh_append:
  "k \<notin> fst ` set al \<Longrightarrow> AList.update k v al = al @ [(k, v)]"
  by (induction al) auto

lemma map_of_None_fresh: "map_of al k = None \<Longrightarrow> AList.update k v al = al @ [(k, v)]"
  by (simp add: update_fresh_append map_of_eq_None_iff)

lemma length_delete_present:
  "distinct (map fst al) \<Longrightarrow> map_of al k = Some v \<Longrightarrow> Suc (length (AList.delete k al)) = length al"
  by (induction al) (auto simp: AList.delete_id map_of_eq_None_iff [symmetric] split: if_splits)

lemma sum_delete_present:
  "distinct (map fst al) \<Longrightarrow> map_of al k = Some v \<Longrightarrow>
   sum_list (map (\<lambda>(k, r). f r) (AList.delete k al)) + f v = sum_list (map (\<lambda>(k, r). (f r :: nat)) al)"
  by (induction al) (auto simp: AList.delete_id map_of_eq_None_iff [symmetric] split: if_splits)

lemma sum_update_present:
  "distinct (map fst al) \<Longrightarrow> map_of al k = Some v \<Longrightarrow>
   sum_list (map (\<lambda>(k, r). f r) (AList.update k v' al)) + f v
     = sum_list (map (\<lambda>(k, r). (f r :: nat)) al) + f v'"
  by (induction al) (auto split: if_splits)







text \<open>Leaving\<close>

lemma leave_cases:
  assumes "inv_keys w"
  obtains (noop) "handleLeaveRoom w userId now = w"
  | (left) user room where
      "map_of (users w) userId = Some user"
      "map_of (rooms w) (user_roomId user) = Some room"
      "room_id room = user_roomId user"
      "handleLeaveRoom w userId now =
         w\<lparr>rooms := (if AList.delete userId (room_users room) = []
                  then AList.delete (room_id room) (rooms w)
                  else AList.update (room_id room)
                         (room\<lparr>room_users := AList.delete userId (room_users room)\<rparr>) (rooms w)),
        users := AList.delete userId (users w),
        uuid_next := Suc (uuid_next w),
        wire := wire w @ deliveries w (AList.delete userId (room_users room))
                  (user_left (info_of user)
                     (map info_of (map snd (AList.delete userId (room_users room))))
                     (SystemMessage (uuid_next w) (left_the_room (user_name user)) now))
                  None\<rparr>"
proof (cases "map_of (users w) userId")
  case None
  then show ?thesis using noop by (simp add: handleLeaveRoom_no_user)
next
  case (Some user)
  show ?thesis
  proof (cases "map_of (rooms w) (user_roomId user)")
    case None
    with Some show ?thesis using noop by (simp add: handleLeaveRoom_no_room)
  next
    case (Some room)
    with assms have "room_id room = user_roomId user" by (simp add: inv_keys_def)
    with Some \<open>map_of (users w) userId = Some user\<close> show ?thesis
      using left handleLeaveRoom_eq by blast
  qed
qed

lemma leave_inv_keys:
  assumes I: "inv_keys w"
  shows "inv_keys (handleLeaveRoom w userId now)"
  using I
proof (cases rule: leave_cases [where userId = userId and now = now])
  case noop
  with I show ?thesis by simp
next
  case (left user room)
  show ?thesis
    unfolding left(4) using I left(1-3)
    by (auto simp: inv_keys_def AList.distinct_update AList.distinct_delete
        AList.update_conv' AList.delete_conv' less_Suc_eq simp del: map_of_eq_Some_iff
        split: if_splits)
qed

lemma leave_inv_nonempty:
  assumes K: "inv_keys w" and I: "inv_nonempty w"
  shows "inv_nonempty (handleLeaveRoom w userId now)"
  using K
proof (cases rule: leave_cases [where userId = userId and now = now])
  case noop
  with I show ?thesis by simp
next
  case (left user room)
  show ?thesis
    unfolding left(4) using I left(1-3)
    by (auto simp: inv_nonempty_def AList.update_conv' AList.delete_conv'
        simp del: map_of_eq_Some_iff split: if_splits)
qed

lemma leave_inv_names:
  assumes K: "inv_keys w" and I: "inv_names w"
  shows "inv_names (handleLeaveRoom w userId now)"
  using K
proof (cases rule: leave_cases [where userId = userId and now = now])
  case noop
  with I show ?thesis by simp
next
  case (left user room)
  let ?room' = "room\<lparr>room_users := AList.delete userId (room_users room)\<rparr>"
  have n: "room_name ?room' = room_name room" by simp
  show ?thesis
    unfolding left(4) using I left(1-3) n
    by (auto simp: inv_names_def AList.update_conv' AList.delete_conv'
        simp del: map_of_eq_Some_iff split: if_splits)
qed

subsection \<open>The two outcomes of the room lookup of a join\<close>

lemma find_None_names:
  "find (\<lambda>(k, r). room_name r = name) al = None \<Longrightarrow> map_of al k = Some r \<Longrightarrow> room_name r \<noteq> name"
  by (auto simp: find_None_iff dest: map_of_SomeD)

lemma find_Some_names:
  "distinct (map fst al) \<Longrightarrow> find (\<lambda>(k, r). room_name r = name) al = Some (k, r) \<Longrightarrow>
   map_of al k = Some r \<and> room_name r = name"
  by (auto simp: find_Some_iff nth_mem)
     (metis nth_mem)


lemma find_or_create_room_cases:
  assumes "inv_keys w"
  obtains (existing) k r where
      "map_of (rooms w) k = Some r" "room_name r = name"
      "find_or_create_room w name now = (k, r, w)"
  | (created)
      "\<forall>k r. map_of (rooms w) k = Some r \<longrightarrow> room_name r \<noteq> name"
      "map_of (rooms w) (uuid_next w) = None"
      "find_or_create_room w name now =
         (uuid_next w, new_room (uuid_next w) name now,
          w\<lparr>uuid_next := Suc (uuid_next w),
            rooms := AList.update (uuid_next w) (new_room (uuid_next w) name now) (rooms w)\<rparr>)"
proof (cases "find (\<lambda>(k, r). room_name r = name) (rooms w)")
  case None
  have fresh: "map_of (rooms w) (uuid_next w) = None"
  proof (cases "map_of (rooms w) (uuid_next w)")
    case (Some r)
    with assms have "uuid_next w < uuid_next w" unfolding inv_keys_def by blast
    then show ?thesis by simp
  qed simp
  show ?thesis
  proof (rule created)
    show "\<forall>k r. map_of (rooms w) k = Some r \<longrightarrow> room_name r \<noteq> name"
      using find_None_names [OF None] by blast
    show "map_of (rooms w) (uuid_next w) = None" by (rule fresh)
    show "find_or_create_room w name now =
         (uuid_next w, new_room (uuid_next w) name now,
          w\<lparr>uuid_next := Suc (uuid_next w),
            rooms := AList.update (uuid_next w) (new_room (uuid_next w) name now) (rooms w)\<rparr>)"
      using None by (simp add: find_or_create_room_def uuidv4_def new_room_def Let_def)
  qed
next
  case (Some p)
  obtain k r where p: "p = (k, r)" by (cases p)
  from assms have "distinct (map fst (rooms w))" by (simp add: inv_keys_def)
  from find_Some_names [OF this Some [unfolded p]]
  have "map_of (rooms w) k = Some r" "room_name r = name" by simp_all
  moreover have "find_or_create_room w name now = (k, r, w)"
    using Some p by (simp add: find_or_create_room_def)
  ultimately show ?thesis by (rule existing)
qed



lemma join_validated_cases:
  assumes "inv_keys (handleLeaveRoom w userId now)"
  obtains (existing) k room0 where
      "map_of (rooms (handleLeaveRoom w userId now)) k = Some room0"
      "room_name room0 = rn" "room_id room0 = k"
      "join_validated w userId ws rn un ur now =
         joined_world (handleLeaveRoom w userId now) userId ws un k room0
           (joined_user userId ws un ur k now) (uuid_next (handleLeaveRoom w userId now)) now"
  | (created)
      "\<forall>k r. map_of (rooms (handleLeaveRoom w userId now)) k = Some r \<longrightarrow> room_name r \<noteq> rn"
      "map_of (rooms (handleLeaveRoom w userId now)) (uuid_next (handleLeaveRoom w userId now)) = None"
      "join_validated w userId ws rn un ur now =
         joined_world (handleLeaveRoom w userId now) userId ws un
           (uuid_next (handleLeaveRoom w userId now))
           (new_room (uuid_next (handleLeaveRoom w userId now)) rn now)
           (joined_user userId ws un ur (uuid_next (handleLeaveRoom w userId now)) now)
           (Suc (uuid_next (handleLeaveRoom w userId now))) now"
  using assms
proof (cases rule: find_or_create_room_cases [where name = rn and now = now])
  case (existing k r)
  from assms existing(1) have id: "room_id r = k" by (simp add: inv_keys_def)
  show ?thesis
  proof (rule that(1) [OF existing(1,2) id])
    show "join_validated w userId ws rn un ur now =
         joined_world (handleLeaveRoom w userId now) userId ws un k r
           (joined_user userId ws un ur k now) (uuid_next (handleLeaveRoom w userId now)) now"
      using id existing(1)
      by (simp add: join_validated_def existing(3) Let_def uuidv4_def sendToUser_eq
          broadcastToRoom_eq getRoomUsers_def sendUserList_def AList.update_conv'
          joined_world_def joined_user_def)
  qed
next
  case created
  show ?thesis
  proof (rule that(2) [OF created(1,2)])
    show "join_validated w userId ws rn un ur now =
         joined_world (handleLeaveRoom w userId now) userId ws un
           (uuid_next (handleLeaveRoom w userId now))
           (new_room (uuid_next (handleLeaveRoom w userId now)) rn now)
           (joined_user userId ws un ur (uuid_next (handleLeaveRoom w userId now)) now)
           (Suc (uuid_next (handleLeaveRoom w userId now))) now"
      by (simp add: join_validated_def created(3) Let_def uuidv4_def sendToUser_eq
          broadcastToRoom_eq getRoomUsers_def sendUserList_def AList.update_conv'
          joined_world_def joined_user_def new_room_def)
  qed
qed

lemma leave_inv_members:
  assumes K: "inv_keys w" and I: "inv_members w"
  shows "inv_members (handleLeaveRoom w userId now)"
  using K
proof (cases rule: leave_cases [where userId = userId and now = now])
  case noop
  with I show ?thesis by simp
next
  case (left user room)
  from I have M1: "map_of (users w) uid = Some u \<and> user_roomId u = k"
    if "map_of (rooms w) k = Some r" "map_of (room_users r) uid = Some u" for k r uid u
    using that unfolding inv_members_def by blast
  from I have M2: "user_id u = uid \<and>
      (\<exists>r. map_of (rooms w) (user_roomId u) = Some r \<and> map_of (room_users r) uid = Some u)"
    if "map_of (users w) uid = Some u" for uid u
    using that unfolding inv_members_def by blast
  have other: "map_of (room_users r) userId = None"
    if "k \<noteq> user_roomId user" "map_of (rooms w) k = Some r" for k r
  proof (cases "map_of (room_users r) userId")
    case (Some u')
    from M1 [OF that(2) Some] left(1) that(1) show ?thesis by simp
  qed simp
  have same: "map_of (room_users room) uid = Some u"
    if "map_of (users w) uid = Some u" "user_roomId u = user_roomId user" for uid u
    using M2 [OF that(1)] that(2) left(2) by auto
  have nonempty: "AList.delete userId (room_users room) \<noteq> []"
    if "uid \<noteq> userId" "map_of (room_users room) uid = Some u" for uid u
  proof
    assume "AList.delete userId (room_users room) = []"
    then have "map_of (AList.delete userId (room_users room)) uid = None" by simp
    with that show False by (simp add: AList.delete_conv')
  qed
  show ?thesis
    unfolding left(4) inv_members_def
  proof (intro conjI allI impI)
    fix k r uid u
    assume a: "map_of (rooms (w\<lparr>rooms := if AList.delete userId (room_users room) = []
                  then AList.delete (room_id room) (rooms w)
                  else AList.update (room_id room)
                         (room\<lparr>room_users := AList.delete userId (room_users room)\<rparr>) (rooms w),
        users := AList.delete userId (users w),
        uuid_next := Suc (uuid_next w),
        wire := wire w @ deliveries w (AList.delete userId (room_users room))
                  (user_left (info_of user)
                     (map info_of (map snd (AList.delete userId (room_users room))))
                     (SystemMessage (uuid_next w) (left_the_room (user_name user)) now))
                  None\<rparr>)) k = Some r"
      (is "map_of (rooms ?w') k = Some r")
      and b: "map_of (room_users r) uid = Some u"
    have "map_of (users w) uid = Some u \<and> user_roomId u = k \<and> uid \<noteq> userId"
    proof (cases "k = user_roomId user")
      case True
      with a left(3) have r: "r = room\<lparr>room_users := AList.delete userId (room_users room)\<rparr>"
        by (simp add: AList.update_conv' AList.delete_conv' split: if_splits)
      with b have "uid \<noteq> userId \<and> map_of (room_users room) uid = Some u"
        by (auto simp: AList.delete_conv' split: if_splits)
      with M1 [OF left(2)] True show ?thesis by blast
    next
      case False
      with a left(3) have r: "map_of (rooms w) k = Some r"
        by (simp add: AList.update_conv' AList.delete_conv' split: if_splits)
      from other [OF False r] b have "uid \<noteq> userId" by auto
      with M1 [OF r b] show ?thesis by simp
    qed
    then show "map_of (users ?w') uid = Some u" and "user_roomId u = k"
      by (simp_all add: AList.delete_conv')
  next
    fix uid u
    assume "map_of (users (w\<lparr>rooms := if AList.delete userId (room_users room) = []
                  then AList.delete (room_id room) (rooms w)
                  else AList.update (room_id room)
                         (room\<lparr>room_users := AList.delete userId (room_users room)\<rparr>) (rooms w),
        users := AList.delete userId (users w),
        uuid_next := Suc (uuid_next w),
        wire := wire w @ deliveries w (AList.delete userId (room_users room))
                  (user_left (info_of user)
                     (map info_of (map snd (AList.delete userId (room_users room))))
                     (SystemMessage (uuid_next w) (left_the_room (user_name user)) now))
                  None\<rparr>)) uid = Some u"
      (is "map_of (users ?w') uid = Some u")
    then have ne: "uid \<noteq> userId" and u: "map_of (users w) uid = Some u"
      by (auto simp: AList.delete_conv' split: if_splits)
    from M2 [OF u] show "user_id u = uid" by simp
    from M2 [OF u] obtain r where r: "map_of (rooms w) (user_roomId u) = Some r"
      "map_of (room_users r) uid = Some u" by blast
    show "\<exists>r. map_of (rooms ?w') (user_roomId u) = Some r \<and> map_of (room_users r) uid = Some u"
    proof (cases "user_roomId u = user_roomId user")
      case True
      with r left(2) have "r = room" by simp
      with r ne nonempty have "AList.delete userId (room_users room) \<noteq> []" by blast
      with True left(3) r ne \<open>r = room\<close> show ?thesis
        by (simp add: AList.update_conv' AList.delete_conv')
    next
      case False
      with r left(3) show ?thesis
        by (simp add: AList.update_conv' AList.delete_conv')
    qed
  qed
qed

lemma leave_inv_count:
  assumes K: "inv_keys w" and M: "inv_members w" and I: "inv_count w"
  shows "inv_count (handleLeaveRoom w userId now)"
  using K
proof (cases rule: leave_cases [where userId = userId and now = now])
  case noop
  with I show ?thesis by simp
next
  case (left user room)
  from K have dr: "distinct (map fst (rooms w))" and du: "distinct (map fst (users w))"
    and dm: "distinct (map fst (room_users room))"
    using left(2) unfolding inv_keys_def by blast+
  from M left(1) obtain r where "map_of (rooms w) (user_roomId user) = Some r"
    "map_of (room_users r) userId = Some user"
    unfolding inv_members_def by blast
  with left(2) have mem: "map_of (room_users room) userId = Some user" by simp
  have lu: "Suc (length (AList.delete userId (users w))) = length (users w)"
    by (rule length_delete_present [OF du left(1)])
  have lm: "Suc (length (AList.delete userId (room_users room))) = length (room_users room)"
    by (rule length_delete_present [OF dm mem])
  have s1: "sum_list (map (\<lambda>(k, r). length (room_users r)) (AList.delete (user_roomId user) (rooms w)))
            + length (room_users room)
          = sum_list (map (\<lambda>(k, r). length (room_users r)) (rooms w))"
    by (rule sum_delete_present [OF dr left(2)])
  have s2: "sum_list (map (\<lambda>(k, r). length (room_users r))
              (AList.update (user_roomId user)
                 (room\<lparr>room_users := AList.delete userId (room_users room)\<rparr>) (rooms w)))
            + length (room_users room)
          = sum_list (map (\<lambda>(k, r). length (room_users r)) (rooms w))
            + length (AList.delete userId (room_users room))"
    using sum_update_present [OF dr left(2), where f = "\<lambda>r. length (room_users r)"
        and v' = "room\<lparr>room_users := AList.delete userId (room_users room)\<rparr>"]
    by simp
  from I have c: "length (users w) = sum_list (map (\<lambda>(k, r). length (room_users r)) (rooms w))"
    by (simp add: inv_count_def)
  show ?thesis
  proof (cases "AList.delete userId (room_users room) = []")
    case True
    with lm have "length (room_users room) = Suc 0" by simp
    with True lu s1 c left(3) show ?thesis
      unfolding left(4) inv_count_def by simp
  next
    case False
    with lu lm s2 c left(3) show ?thesis
      unfolding left(4) inv_count_def by simp
  qed
qed

lemma leave_inv_listeners:
  assumes K: "inv_keys w" and I: "inv_listeners w"
  shows "inv_listeners (handleLeaveRoom w userId now)"
  using K
proof (cases rule: leave_cases [where userId = userId and now = now])
  case noop
  with I show ?thesis by simp
next
  case (left user room)
  show ?thesis
    unfolding left(4) using I
    by (auto simp: inv_listeners_def AList.delete_conv' less_Suc_eq
        simp del: map_of_eq_Some_iff split: if_splits)
qed

lemma leave_consistent: "consistent w \<Longrightarrow> consistent (handleLeaveRoom w userId now)"
  unfolding consistent_def
  by (intro conjI leave_inv_keys leave_inv_nonempty leave_inv_names leave_inv_members
      leave_inv_count leave_inv_listeners) simp_all

lemma leave_removes_user:
  assumes "inv_keys w" "inv_members w"
  shows "map_of (users (handleLeaveRoom w userId now)) userId = None"
proof (cases "map_of (users w) userId")
  case None
  then show ?thesis by (simp add: handleLeaveRoom_no_user)
next
  case (Some user)
  with assms(2) obtain r where "map_of (rooms w) (user_roomId user) = Some r"
    unfolding inv_members_def by blast
  with Some show ?thesis
    by (simp add: users_handleLeaveRoom AList.delete_conv')
qed

subsection \<open>Joining keeps the invariants\<close>

lemma length_update_fresh:
  "map_of al k = None \<Longrightarrow> length (AList.update k v al) = Suc (length al)"
  by (simp add: map_of_None_fresh)

lemma sum_update_fresh:
  "map_of al k = None \<Longrightarrow>
   sum_list (map (\<lambda>(k, r). f r) (AList.update k v al))
     = sum_list (map (\<lambda>(k, r). (f r :: nat)) al) + f v"
  by (simp add: map_of_None_fresh)

lemma not_member_without_user:
  assumes "inv_members w" "map_of (users w) uid = None" "map_of (rooms w) k = Some r"
  shows "map_of (room_users r) uid = None"
proof (cases "map_of (room_users r) uid")
  case (Some u)
  with assms(1,3) have "map_of (users w) uid = Some u" unfolding inv_members_def by blast
  with assms(2) show ?thesis by simp
qed simp

text \<open>The state a join ends in is consistent when the state after the leave was.\<close>

lemma joined_world_consistent:
  assumes C: "consistent w1"
    and nu: "map_of (users w1) userId = None"
    and L: "(userId, ws) \<in> set (listeners w1)"
    and room0: "(map_of (rooms w1) k = Some room0 \<and> uuid_next w1 \<le> mid) \<or>
                (map_of (rooms w1) k = None \<and> room0 = new_room k name now \<and>
                 (\<forall>k' r'. map_of (rooms w1) k' = Some r' \<longrightarrow> room_name r' \<noteq> name) \<and>
                 k = uuid_next w1 \<and> k < mid)"
  shows "consistent (joined_world w1 userId ws un k room0 (joined_user userId ws un ur k now) mid now)"
proof -
  let ?user = "joined_user userId ws un ur k now"
  let ?room = "room0\<lparr>room_users := AList.update userId ?user (room_users room0)\<rparr>"
  let ?w = "joined_world w1 userId ws un k room0 ?user mid now"
  from C have K: "inv_keys w1" and N: "inv_nonempty w1" and Nm: "inv_names w1"
    and M: "inv_members w1" and Ct: "inv_count w1" and Li: "inv_listeners w1"
    by (simp_all add: consistent_def)
  have R: "rooms ?w = AList.update k ?room (rooms w1)"
    and U: "users ?w = AList.update userId ?user (users w1)"
    and X: "uuid_next ?w = Suc mid" and Ls: "listeners ?w = listeners w1"
    by (simp_all add: joined_world_def Let_def)
  have uf: "user_id ?user = userId" "user_roomId ?user = k" "user_socket ?user = ws"
    by (simp_all add: joined_user_def)
  have mR: "map_of (rooms ?w) = (map_of (rooms w1))(k \<mapsto> ?room)"
    by (simp add: R AList.update_conv')
  have mU: "map_of (users ?w) = (map_of (users w1))(userId \<mapsto> ?user)"
    by (simp add: U AList.update_conv')
  have mm: "map_of (room_users ?room) = (map_of (room_users room0))(userId \<mapsto> ?user)"
    by (simp add: AList.update_conv')
  from K have K': "room_id r = k' \<and> k' < uuid_next w1 \<and> distinct (map fst (room_users r))"
    if "map_of (rooms w1) k' = Some r" for k' r
    using that unfolding inv_keys_def by blast
  have id0: "room_id room0 = k" and d0: "distinct (map fst (room_users room0))"
    and fresh0: "map_of (room_users room0) userId = None"
    using room0 K' not_member_without_user [OF M nu]
    by (auto simp: new_room_def simp del: map_of_eq_Some_iff)
  have lt: "k < Suc mid" and le: "uuid_next w1 \<le> Suc mid"
    using room0 K' [of k room0] by auto
  have names0: "room_name r' \<noteq> room_name room0"
    if "map_of (rooms w1) k' = Some r'" "k' \<noteq> k" for k' r'
    using room0 that Nm by (auto simp: inv_names_def new_room_def simp del: map_of_eq_Some_iff)
  have old0: "map_of (users w1) uid = Some u \<and> user_roomId u = k"
    if "map_of (room_users room0) uid = Some u" for uid u
    using room0 that M by (auto simp: inv_members_def new_room_def simp del: map_of_eq_Some_iff)
  have back0: "map_of (room_users room0) uid = Some u"
    if "map_of (users w1) uid = Some u" "user_roomId u = k" for uid u
  proof -
    from M that(1) obtain r where "map_of (rooms w1) (user_roomId u) = Some r"
      "map_of (room_users r) uid = Some u"
      unfolding inv_members_def by blast
    with room0 that(2) show ?thesis by auto
  qed
  have K'': "k' < Suc mid" if "map_of (rooms w1) k' = Some r" for k' r
    using K' [OF that] le by simp
  have "inv_keys ?w"
    unfolding inv_keys_def R U X using K K' K'' id0 lt d0
    by (auto simp: inv_keys_def AList.distinct_update AList.update_conv'
        simp del: map_of_eq_Some_iff split: if_splits)
  moreover have "inv_nonempty ?w"
    unfolding inv_nonempty_def mR using N
    by (auto simp: inv_nonempty_def simp del: map_of_eq_Some_iff split: if_splits)
  moreover have "inv_names ?w"
    unfolding inv_names_def
  proof (intro allI impI)
    fix k1 r1 k2 r2
    assume a: "map_of (rooms ?w) k1 = Some r1" and b: "map_of (rooms ?w) k2 = Some r2"
      and c: "room_name r1 = room_name r2"
    have old: "map_of (rooms w1) k' = Some r'" if "map_of (rooms ?w) k' = Some r'" "k' \<noteq> k"
      for k' r'
      using that by (simp add: mR)
    have new: "room_name r' = room_name room0" if "map_of (rooms ?w) k = Some r'" for r'
      using that by (auto simp: mR)
    show "k1 = k2"
    proof (cases "k1 = k")
      case True
      show ?thesis
      proof (cases "k2 = k")
        case False
        from names0 [OF old [OF b False] False] new [OF a [unfolded True]] c
        show ?thesis by simp
      qed (simp add: True)
    next
      case False
      show ?thesis
      proof (cases "k2 = k")
        case True
        from names0 [OF old [OF a False] False] new [OF b [unfolded True]] c
        show ?thesis by simp
      next
        case k2: False
        from Nm old [OF a False] old [OF b k2] c show ?thesis
          unfolding inv_names_def by blast
      qed
    qed
  qed
  moreover have "inv_members ?w"
    unfolding inv_members_def
  proof (intro conjI allI impI)
    fix k' r uid u
    assume a: "map_of (rooms ?w) k' = Some r" and b: "map_of (room_users r) uid = Some u"
    show "map_of (users ?w) uid = Some u" and "user_roomId u = k'"
    proof -
      have "map_of (users ?w) uid = Some u \<and> user_roomId u = k'"
      proof (cases "k' = k")
        case True
        with a have r: "r = ?room" by (simp add: mR)
        show ?thesis
        proof (cases "uid = userId")
          case True
          with b r have "u = ?user" by (simp add: AList.update_conv')
          with True \<open>k' = k\<close> show ?thesis by (simp add: mU uf)
        next
          case False
          with b r have "map_of (room_users room0) uid = Some u"
            by (simp add: AList.update_conv')
          from old0 [OF this] False \<open>k' = k\<close> show ?thesis by (simp add: mU)
        qed
      next
        case False
        with a have r: "map_of (rooms w1) k' = Some r" by (simp add: mR)
        from not_member_without_user [OF M nu r] b have "uid \<noteq> userId" by auto
        moreover from M r b have "map_of (users w1) uid = Some u \<and> user_roomId u = k'"
          unfolding inv_members_def by blast
        ultimately show ?thesis by (simp add: mU)
      qed
      then show "map_of (users ?w) uid = Some u" and "user_roomId u = k'" by simp_all
    qed
  next
    fix uid u
    assume a: "map_of (users ?w) uid = Some u"
    have "user_id u = uid \<and>
      (\<exists>r. map_of (rooms ?w) (user_roomId u) = Some r \<and> map_of (room_users r) uid = Some u)"
    proof (cases "uid = userId")
      case True
      with a have "u = ?user" by (simp add: mU)
      with True show ?thesis by (simp add: mR AList.update_conv' uf)
    next
      case False
      with a have u: "map_of (users w1) uid = Some u" by (simp add: mU)
      with M obtain r where r: "user_id u = uid" "map_of (rooms w1) (user_roomId u) = Some r"
        "map_of (room_users r) uid = Some u"
        unfolding inv_members_def by blast
      show ?thesis
      proof (cases "user_roomId u = k")
        case True
        from back0 [OF u True] False r(1) True show ?thesis
          by (simp add: mR AList.update_conv')
      next
        case False
        with r show ?thesis by (simp add: mR)
      qed
    qed
    then show "user_id u = uid"
      and "\<exists>r. map_of (rooms ?w) (user_roomId u) = Some r \<and> map_of (room_users r) uid = Some u"
      by simp_all
  qed
  moreover have "inv_count ?w"
  proof -
    have lu: "length (users ?w) = Suc (length (users w1))"
      by (simp add: U length_update_fresh [OF nu])
    have lm: "length (room_users ?room) = Suc (length (room_users room0))"
      by (simp add: length_update_fresh [OF fresh0])
    from Ct have c: "length (users w1) = sum_list (map (\<lambda>(k, r). length (room_users r)) (rooms w1))"
      by (simp add: inv_count_def)
    have "sum_list (map (\<lambda>(k, r). length (room_users r)) (rooms ?w))
            = Suc (sum_list (map (\<lambda>(k, r). length (room_users r)) (rooms w1)))"
    proof (cases "map_of (rooms w1) k")
      case None
      with room0 have "room_users room0 = []" by (auto simp: new_room_def)
      with lm sum_update_fresh [OF None, where f = "\<lambda>r. length (room_users r)" and v = ?room]
      show ?thesis by (simp add: R)
    next
      case (Some r)
      with room0 have r: "map_of (rooms w1) k = Some room0" by auto
      from K have "distinct (map fst (rooms w1))" by (simp add: inv_keys_def)
      from sum_update_present [OF this r, where f = "\<lambda>r. length (room_users r)" and v' = ?room] lm
      show ?thesis by (simp add: R)
    qed
    with lu c show ?thesis by (simp add: inv_count_def)
  qed
  moreover have "inv_listeners ?w"
    unfolding inv_listeners_def Ls X mU using Li L le
    by (auto simp: inv_listeners_def uf simp del: map_of_eq_Some_iff
        split: if_splits)
  ultimately show ?thesis by (simp add: consistent_def)
qed

subsection \<open>Every run is consistent\<close>

lemma consistent_mono:
  assumes "consistent w" "rooms w' = rooms w" "users w' = users w"
    "listeners w' = listeners w" "uuid_next w \<le> uuid_next w'"
  shows "consistent w'"
proof -
  from assms(1) have K: "inv_keys w" and N: "inv_nonempty w" and Nm: "inv_names w"
    and M: "inv_members w" and Ct: "inv_count w" and Li: "inv_listeners w"
    by (simp_all add: consistent_def)
  have "inv_keys w'"
    using K assms(5) unfolding inv_keys_def assms(2,3)
    by (meson less_le_trans)
  moreover have "inv_nonempty w'" using N unfolding inv_nonempty_def assms(2) .
  moreover have "inv_names w'" using Nm unfolding inv_names_def assms(2) .
  moreover have "inv_members w'" using M unfolding inv_members_def assms(2,3) .
  moreover have "inv_count w'" using Ct unfolding inv_count_def assms(2,3) .
  moreover have "inv_listeners w'"
    using Li assms(5) unfolding inv_listeners_def assms(3,4)
    by (meson less_le_trans)
  ultimately show ?thesis by (simp add: consistent_def)
qed

lemma sendToUser_fields [simp]:
  "rooms (sendToUser w ws m) = rooms w"
  "users (sendToUser w ws m) = users w"
  "listeners (sendToUser w ws m) = listeners w"
  "uuid_next (sendToUser w ws m) = uuid_next w"
  "readyState (sendToUser w ws m) = readyState w"
  "sendThrows (sendToUser w ws m) = sendThrows w"
  "wire (sendToUser w ws m) = wire w @ attempt w ws m"
  by (simp_all add: sendToUser_eq)

lemma sendError_fields [simp]:
  "rooms (sendError w ws e) = rooms w"
  "users (sendError w ws e) = users w"
  "listeners (sendError w ws e) = listeners w"
  "uuid_next (sendError w ws e) = uuid_next w"
  "readyState (sendError w ws e) = readyState w"
  "sendThrows (sendError w ws e) = sendThrows w"
  "wire (sendError w ws e) = wire w @ attempt w ws (error_reply e)"
  by (simp_all add: sendError_def)

lemma sendUserList_fields [simp]:
  "rooms (sendUserList w uid) = rooms w"
  "users (sendUserList w uid) = users w"
  "listeners (sendUserList w uid) = listeners w"
  "uuid_next (sendUserList w uid) = uuid_next w"
  "readyState (sendUserList w uid) = readyState w"
  "sendThrows (sendUserList w uid) = sendThrows w"
  by (simp_all add: sendUserList_def split: option.splits)

lemma broadcastToRoom_fields [simp]:
  "rooms (broadcastToRoom w rid m ex) = rooms w"
  "users (broadcastToRoom w rid m ex) = users w"
  "listeners (broadcastToRoom w rid m ex) = listeners w"
  "uuid_next (broadcastToRoom w rid m ex) = uuid_next w"
  "readyState (broadcastToRoom w rid m ex) = readyState w"
  "sendThrows (broadcastToRoom w rid m ex) = sendThrows w"
  by (simp_all add: broadcastToRoom_eq split: option.splits)

lemma handleLeaveRoom_env [simp]:
  "listeners (handleLeaveRoom w uid now) = listeners w"
  "readyState (handleLeaveRoom w uid now) = readyState w"
  "sendThrows (handleLeaveRoom w uid now) = sendThrows w"
  by (simp_all add: handleLeaveRoom_def Let_def uuidv4_def split: option.splits)

lemma join_validated_consistent:
  assumes C: "consistent w" and L: "(userId, ws) \<in> set (listeners w)"
  shows "consistent (join_validated w userId ws rn un ur now)"
proof -
  let ?w1 = "handleLeaveRoom w userId now"
  have C1: "consistent ?w1" by (rule leave_consistent [OF C])
  then have K1: "inv_keys ?w1" by (simp add: consistent_def)
  from C have nu: "map_of (users ?w1) userId = None"
    by (intro leave_removes_user) (simp_all add: consistent_def)
  from L have L1: "(userId, ws) \<in> set (listeners ?w1)" by simp
  from K1 show ?thesis
  proof (cases rule: join_validated_cases [where rn = rn and ws = ws and un = un and ur = ur])
    case (existing k room0)
    show ?thesis
      unfolding existing(4)
      by (rule joined_world_consistent [OF C1 nu L1, where name = rn]) (simp add: existing(1))
  next
    case created
    show ?thesis
      unfolding created(3)
      by (rule joined_world_consistent [OF C1 nu L1, where name = rn]) (simp add: created(1,2))
  qed
qed

lemma handleJoinRoom_consistent:
  assumes C: "consistent w" and L: "(userId, ws) \<in> set (listeners w)"
  shows "consistent (caught ws (handleJoinRoom w userId ws payload now))"
proof -
  have S: "consistent (sendError w ws e)" for e
    by (rule consistent_mono [OF C]) simp_all
  show ?thesis
    using S join_validated_consistent [OF C L]
    by (auto simp: caught_def handleJoinRoom_def split: option.splits)
qed

lemma handleChatMessage_consistent:
  assumes C: "consistent w"
  shows "consistent (caught ws (handleChatMessage w userId payload now))"
  by (rule consistent_mono [OF C])
     (auto simp: caught_def handleChatMessage_def uuidv4_def Let_def split: option.splits)

lemma on_message_consistent:
  assumes C: "consistent w" and L: "(userId, ws) \<in> set (listeners w)"
  shows "consistent (on_message w userId ws data now)"
proof (cases data)
  case not_json
  show ?thesis unfolding not_json on_message_def by (simp, rule consistent_mono [OF C]) simp_all
next
  case json_null
  show ?thesis unfolding json_null on_message_def by (simp, rule consistent_mono [OF C]) simp_all
next
  case (json message)
  have "consistent (handleMessage w userId ws message now)"
  proof (cases message)
    case (join_room p)
    then show ?thesis by (simp add: handleMessage_def handleJoinRoom_consistent [OF C L])
  next
    case (chat_message p)
    then show ?thesis by (simp add: handleMessage_def handleChatMessage_consistent [OF C])
  next
    case leave_room
    then show ?thesis by (simp add: handleMessage_def leave_consistent [OF C])
  next
    case list_users
    have "consistent (handleListUsers w userId)"
      by (rule consistent_mono [OF C]) (simp_all add: handleListUsers_def split: option.splits)
    with list_users show ?thesis by (simp add: handleMessage_def)
  next
    case other_type
    have "consistent (sendError w ws unknown_message_type)"
      by (rule consistent_mono [OF C]) simp_all
    with other_type show ?thesis by (simp add: handleMessage_def)
  qed
  then show ?thesis by (simp add: json on_message_def)
qed

lemma on_connection_fields:
  "rooms (on_connection w ws) = rooms w"
  "users (on_connection w ws) = users w"
  "listeners (on_connection w ws) = listeners w @ [(uuid_next w, ws)]"
  "uuid_next (on_connection w ws) = Suc (uuid_next w)"
  "readyState (on_connection w ws) = readyState w"
  "sendThrows (on_connection w ws) = sendThrows w"
  "wire (on_connection w ws) = wire w @ attempt w ws (connection_established (uuid_next w))"
  by (simp_all add: on_connection_def uuidv4_def Let_def)

lemma on_connection_consistent:
  assumes C: "consistent w" and F: "ws \<notin> snd ` set (listeners w)"
  shows "consistent (on_connection w ws)"
proof -
  from C have K: "inv_keys w" and N: "inv_nonempty w" and Nm: "inv_names w"
    and M: "inv_members w" and Ct: "inv_count w" and Li: "inv_listeners w"
    by (simp_all add: consistent_def)
  have "inv_keys (on_connection w ws)"
    using K unfolding inv_keys_def on_connection_fields by (meson less_Suc_eq)
  moreover have "inv_nonempty (on_connection w ws)"
    using N unfolding inv_nonempty_def on_connection_fields .
  moreover have "inv_names (on_connection w ws)"
    using Nm unfolding inv_names_def on_connection_fields .
  moreover have "inv_members (on_connection w ws)"
    using M unfolding inv_members_def on_connection_fields .
  moreover have "inv_count (on_connection w ws)"
    using Ct unfolding inv_count_def on_connection_fields .
  moreover have "inv_listeners (on_connection w ws)"
    using Li F unfolding inv_listeners_def on_connection_fields
    by (fastforce simp: less_Suc_eq image_iff)
  ultimately show ?thesis by (simp add: consistent_def)
qed

lemma close_consistent:
  assumes C: "consistent w"
  shows "consistent ((handleDisconnect w userId now)
                       \<lparr>listeners := filter (\<lambda>(u, s). u \<noteq> userId) (listeners w)\<rparr>)"
    (is "consistent ?w'")
proof -
  let ?w1 = "handleLeaveRoom w userId now"
  have C1: "consistent ?w1" by (rule leave_consistent [OF C])
  then have K: "inv_keys ?w1" and N: "inv_nonempty ?w1" and Nm: "inv_names ?w1"
    and M: "inv_members ?w1" and Ct: "inv_count ?w1" and Li: "inv_listeners ?w1"
    by (simp_all add: consistent_def)
  from C have nu: "map_of (users ?w1) userId = None"
    by (intro leave_removes_user) (simp_all add: consistent_def)
  have f: "rooms ?w' = rooms ?w1" "users ?w' = users ?w1" "uuid_next ?w' = uuid_next ?w1"
    "listeners ?w' = filter (\<lambda>(u, s). u \<noteq> userId) (listeners ?w1)"
    by (simp_all add: handleDisconnect_def)
  have "inv_keys ?w'" using K unfolding inv_keys_def f .
  moreover have "inv_nonempty ?w'" using N unfolding inv_nonempty_def f .
  moreover have "inv_names ?w'" using Nm unfolding inv_names_def f .
  moreover have "inv_members ?w'" using M unfolding inv_members_def f .
  moreover have "inv_count ?w'" using Ct unfolding inv_count_def f .
  moreover have "inv_listeners ?w'"
    using Li nu unfolding inv_listeners_def f
    by (auto simp: distinct_map_filter simp del: map_of_eq_Some_iff)
  ultimately show ?thesis by (simp add: consistent_def)
qed

lemma consistent_env:
  "consistent (w\<lparr>readyState := rs\<rparr>) = consistent w"
  "consistent (w\<lparr>sendThrows := st\<rparr>) = consistent w"
  by (simp_all add: consistent_def inv_keys_def inv_nonempty_def inv_names_def
      inv_members_def inv_count_def inv_listeners_def)

lemma step_consistent: "consistent w \<Longrightarrow> consistent (step w e)"
proof (cases e)
  case (Connection ws)
  assume "consistent w"
  then show ?thesis by (simp add: Connection on_connection_consistent)
next
  case (Message userId ws data now)
  assume "consistent w"
  then show ?thesis by (simp add: Message on_message_consistent)
next
  case (SocketError userId now)
  assume "consistent w"
  then show ?thesis by (simp add: SocketError handleDisconnect_def leave_consistent)
next
  case (Close userId now)
  assume "consistent w"
  then show ?thesis using close_consistent [of w userId now] by (simp add: Close)
next
  case (SetReadyState ws s)
  assume "consistent w"
  then show ?thesis by (simp add: SetReadyState consistent_env)
next
  case (SetSendThrows ws b)
  assume "consistent w"
  then show ?thesis by (simp add: SetSendThrows consistent_env)
qed

lemma WSServer_consistent: "consistent (WSServer rs st)"
  by (simp add: consistent_def inv_keys_def inv_nonempty_def inv_names_def
      inv_members_def inv_count_def inv_listeners_def WSServer_def)

lemma foldl_step_consistent: "consistent w \<Longrightarrow> consistent (foldl step w evs)"
  by (induction evs arbitrary: w) (simp_all add: step_consistent)

lemma run_consistent: "consistent (run (WSServer rs st) evs)"
  unfolding run_def by (rule foldl_step_consistent [OF WSServer_consistent])

subsection \<open>The states of the scenarios\<close>

lemmas handler_defs =
  on_connection_def uuidv4_def sendToUser_def sendError_def on_message_def handleMessage_def
  caught_def handleJoinRoom_def join_validated_def handleLeaveRoom_def find_or_create_room_def
  broadcastToRoom_def getRoomUsers_def sendUserList_def as_UserRole_def info_of_def
  handleChatMessage_def handleDisconnect_def handleListUsers_def Let_def join_as_def

lemmas scenario_defs =
  Alice_def Bob_def Carol_def Dave_def alpha_def wire_connected_def wire_one_def wire_two_def
  wire_mixed_def
  roster_def hello_def

lemma run_snoc: "run w (evs @ [e]) = step (run w evs) e"
  by (simp add: run_def)

lemma run_append: "run w (evs @ evs') = run (run w evs) evs'"
  by (simp add: run_def)

lemma connected_state: "run all_open connected = two_connected"
  by (simp add: run_def all_open_def connected_def two_connected_def WSServer_def
      handler_defs scenario_defs)

lemma one_in_alpha_state: "run all_open one_in_alpha = alice_alone"
  unfolding one_in_alpha_def run_snoc connected_state
  by (simp add: two_connected_def alice_alone_def handler_defs scenario_defs)

lemma two_in_alpha_state: "run all_open two_in_alpha = alice_and_bob"
  unfolding two_in_alpha_def run_snoc one_in_alpha_state
  by (simp add: alice_alone_def alice_and_bob_def handler_defs scenario_defs)

lemma mixed_room_state: "run all_open mixed_room = four_mixed"
  unfolding mixed_room_def run_append two_in_alpha_state
  by (simp add: run_def alice_and_bob_def four_mixed_def handler_defs scenario_defs fun_eq_iff)

subsection \<open>Broadcast\<close>

lemma deliveries_map_filter:
  "deliveries w members message (Some sender) =
     map (\<lambda>(userId, user).
            if sendThrows w (user_socket user) then SendFailed (user_socket user) message
            else Sent (user_socket user) message)
         (filter (\<lambda>(userId, user). userId \<noteq> sender \<and> readyState w (user_socket user) = OPEN)
            members)"
  by (induction members) (auto simp: deliveries_Cons attempt_def split: if_splits)

lemma deliveries_all_map_filter:
  "deliveries w members message None =
     map (\<lambda>(userId, user).
            if sendThrows w (user_socket user) then SendFailed (user_socket user) message
            else Sent (user_socket user) message)
         (filter (\<lambda>(userId, user). readyState w (user_socket user) = OPEN) members)"
  by (induction members) (auto simp: deliveries_Cons attempt_def split: if_splits)

lemma deliveries_member:
  assumes "e \<in> set (deliveries w members message ex)"
  obtains userId user where "(userId, user) \<in> set members" "Some userId \<noteq> ex"
    "event_sock e = user_socket user" "event_message e = message"
  using assms
  by (auto simp: deliveries_def attempt_def split: if_splits)

lemma distinct_snd_unique:
  "distinct (map snd xs) \<Longrightarrow> (a, s) \<in> set xs \<Longrightarrow> (b, s) \<in> set xs \<Longrightarrow> a = b"
  by (induction xs) (auto simp: image_iff)

lemma member_socket_listener:
  assumes C: "consistent w" and r: "map_of (rooms w) k = Some room"
    and m: "(userId, user) \<in> set (room_users room)"
  shows "(userId, user_socket user) \<in> set (listeners w)"
proof -
  from C r have "distinct (map fst (room_users room))"
    unfolding consistent_def inv_keys_def by blast
  with m have "map_of (room_users room) userId = Some user" by simp
  with C r have "map_of (users w) userId = Some user"
    unfolding consistent_def inv_members_def by blast
  with C show ?thesis unfolding consistent_def inv_listeners_def by blast
qed

text \<open>
  Claim C1. A broadcast with an excluded sender changes nothing but the trace and always
  returns. To the trace it adds, in the order of the membership map of the room at the
  call, one entry for every member other than the sender whose socket is open: the frame,
  or the logged failure when the send on that socket throws; the entries of the later
  members follow a failure all the same. In a state the server can reach, none of the
  added entries is on the socket of the sender's connection.
\<close>

theorem broadcast_excludes_sender:
  assumes "map_of (rooms w) roomId = Some room"
  shows "broadcastToRoom w roomId message (Some sender) =
           w\<lparr>wire := wire w @
                map (\<lambda>(userId, user).
                       if sendThrows w (user_socket user)
                       then SendFailed (user_socket user) message
                       else Sent (user_socket user) message)
                    (filter (\<lambda>(userId, user).
                               userId \<noteq> sender \<and> readyState w (user_socket user) = OPEN)
                       (room_users room))\<rparr>
         \<and> (\<forall>rs st evs ws e.
               w = run (WSServer rs st) evs \<longrightarrow>
               (sender, ws) \<in> set (listeners w) \<longrightarrow>
               e \<in> set (drop (length (wire w))
                          (wire (broadcastToRoom w roomId message (Some sender)))) \<longrightarrow>
               event_sock e \<noteq> ws)"
proof (intro conjI allI impI)
  show "broadcastToRoom w roomId message (Some sender) =
           w\<lparr>wire := wire w @
                map (\<lambda>(userId, user).
                       if sendThrows w (user_socket user)
                       then SendFailed (user_socket user) message
                       else Sent (user_socket user) message)
                    (filter (\<lambda>(userId, user).
                               userId \<noteq> sender \<and> readyState w (user_socket user) = OPEN)
                       (room_users room))\<rparr>"
    using assms by (simp add: broadcastToRoom_eq deliveries_map_filter)
next
  fix rs st evs ws e
  assume w: "w = run (WSServer rs st) evs" and l: "(sender, ws) \<in> set (listeners w)"
    and e: "e \<in> set (drop (length (wire w))
                         (wire (broadcastToRoom w roomId message (Some sender))))"
  from w have C: "consistent w" by (simp add: run_consistent)
  from e assms have "e \<in> set (deliveries w (room_users room) message (Some sender))"
    by (simp add: broadcastToRoom_eq)
  then obtain userId user where m: "(userId, user) \<in> set (room_users room)"
    and ne: "userId \<noteq> sender" and s: "event_sock e = user_socket user"
    by (rule deliveries_member) simp
  from member_socket_listener [OF C assms m]
  have "(userId, event_sock e) \<in> set (listeners w)" by (simp add: s)
  moreover from C have "distinct (map snd (listeners w))"
    by (simp add: consistent_def inv_listeners_def)
  ultimately show "event_sock e \<noteq> ws"
    using l ne distinct_snd_unique by fastforce
qed

theorem broadcast_excludes_sender_witness:
  "map_of (rooms (run all_open mixed_room)) 2
     = Some (alpha [(0, Alice), (1, Bob), (5, Carol), (7, Dave)]) \<and>
   (0, 10) \<in> set (listeners (run all_open mixed_room)) \<and>
   broadcastToRoom (run all_open mixed_room) 2 hello (Some 0)
     = (run all_open mixed_room)\<lparr>wire := wire_mixed @ [Sent 11 hello, SendFailed 13 hello]\<rparr> \<and>
   SendFailed 13 hello
     \<in> set (drop (length (wire (run all_open mixed_room)))
               (wire (broadcastToRoom (run all_open mixed_room) 2 hello (Some 0)))) \<and>
   event_sock (SendFailed 13 hello) \<noteq> 10"
proof -
  have r: "map_of (rooms (run all_open mixed_room)) 2
             = Some (alpha [(0, Alice), (1, Bob), (5, Carol), (7, Dave)])"
    by (simp add: mixed_room_state four_mixed_def)
  have b: "broadcastToRoom (run all_open mixed_room) 2 hello (Some 0)
     = (run all_open mixed_room)\<lparr>wire := wire_mixed @ [Sent 11 hello, SendFailed 13 hello]\<rparr>"
    using broadcast_excludes_sender [OF r, of hello 0]
    by (simp add: mixed_room_state four_mixed_def alpha_def Alice_def Bob_def Carol_def Dave_def)
  show ?thesis
    using broadcast_excludes_sender [OF r, of hello 0] b
    by (simp add: mixed_room_state four_mixed_def)
qed

subsection \<open>Rooms of the directory\<close>

lemma consistent_room_entry:
  "consistent w \<Longrightarrow> ((k, r) \<in> set (rooms w)) = (map_of (rooms w) k = Some r)"
  by (simp add: consistent_def inv_keys_def)

lemma in_keys_iff: "(x \<in> fst ` set al) = (\<exists>v. map_of al x = Some v)"
  using map_of_eq_None_iff [of al x] by auto



lemma consistent_one_room:
  assumes C: "consistent w"
  shows "uid \<in> fst ` set (users w) \<longleftrightarrow>
           (\<exists>!k. \<exists>r. (k, r) \<in> set (rooms w) \<and> uid \<in> fst ` set (room_users r))"
proof -
  from C have M: "inv_members w" by (simp add: consistent_def)
  note E = consistent_room_entry [OF C]
  from M have M1: "map_of (users w) uid = Some u \<and> user_roomId u = k"
    if "map_of (rooms w) k = Some r" "map_of (room_users r) uid = Some u" for k r uid u
    using that unfolding inv_members_def by blast
  from M have M2: "\<exists>r. map_of (rooms w) (user_roomId u) = Some r \<and> map_of (room_users r) uid = Some u"
    if "map_of (users w) uid = Some u" for uid u
    using that unfolding inv_members_def by blast
  show ?thesis
  proof
    assume "uid \<in> fst ` set (users w)"
    then obtain u where u: "map_of (users w) uid = Some u" by (auto simp: in_keys_iff)
    from M2 [OF u] obtain r where r: "map_of (rooms w) (user_roomId u) = Some r"
      "map_of (room_users r) uid = Some u" by blast
    show "\<exists>!k. \<exists>r. (k, r) \<in> set (rooms w) \<and> uid \<in> fst ` set (room_users r)"
    proof (rule ex1I [of _ "user_roomId u"])
      from r show "\<exists>r. (user_roomId u, r) \<in> set (rooms w) \<and> uid \<in> fst ` set (room_users r)"
        unfolding E in_keys_iff by blast
    next
      fix k
      assume "\<exists>r. (k, r) \<in> set (rooms w) \<and> uid \<in> fst ` set (room_users r)"
      then obtain r' u' where "map_of (rooms w) k = Some r'" "map_of (room_users r') uid = Some u'"
        unfolding E in_keys_iff by blast
      from M1 [OF this] u show "k = user_roomId u" by simp
    qed
  next
    assume "\<exists>!k. \<exists>r. (k, r) \<in> set (rooms w) \<and> uid \<in> fst ` set (room_users r)"
    then obtain k r u where "map_of (rooms w) k = Some r" "map_of (room_users r) uid = Some u"
      unfolding E in_keys_iff by blast
    from M1 [OF this] show "uid \<in> fst ` set (users w)"
      unfolding in_keys_iff by blast
  qed
qed

lemma consistent_at_most_one_room:
  assumes C: "consistent w"
    and "(k1, r1) \<in> set (rooms w)" "(k2, r2) \<in> set (rooms w)"
    and "uid \<in> fst ` set (room_users r1)" "uid \<in> fst ` set (room_users r2)"
  shows "k1 = k2"
proof -
  from C have M: "inv_members w" by (simp add: consistent_def)
  from M have M1: "map_of (users w) uid = Some u \<and> user_roomId u = k"
    if "map_of (rooms w) k = Some r" "map_of (room_users r) uid = Some u" for k r u
    using that unfolding inv_members_def by blast
  from assms(2,3) have e: "map_of (rooms w) k1 = Some r1" "map_of (rooms w) k2 = Some r2"
    by (simp_all add: consistent_room_entry [OF C])
  from assms(4) obtain u1 where u1: "map_of (room_users r1) uid = Some u1"
    unfolding in_keys_iff by blast
  from assms(5) obtain u2 where u2: "map_of (room_users r2) uid = Some u2"
    unfolding in_keys_iff by blast
  from M1 [OF e(1) u1] M1 [OF e(2) u2] show ?thesis by simp
qed





subsection \<open>The two maps and the statistics; rejected joins\<close>




text \<open>
  Claim C6. A \<^verbatim>\<open>join_room\<close> whose payload lacks the room name, the user name or the role
  (absent or the empty string), or whose role is neither of the two role names, returns
  the state as it was but for the trace, to which it adds the error reply on the socket
  of the requesting session when that socket is open. Both maps and the listeners are as
  before, so a membership the session had is unchanged. The same holds, with the text of
  the runtime's type error, when the payload as a whole is missing.
\<close>

theorem join_validation:
  assumes "roomName p \<in> {None, Some []} \<or> userName p \<in> {None, Some []} \<or>
           userRole p \<in> {None, Some []} \<or>
           (userRole p \<noteq> Some ''product_manager'' \<and> userRole p \<noteq> Some ''developer'')"
  shows "on_message w userId ws (json (join_room (Some p))) now =
           w\<lparr>wire := wire w @
              (if readyState w ws = OPEN
               then [(if sendThrows w ws then SendFailed ws else Sent ws)
                       (error_reply
                          (if roomName p \<in> {None, Some []} \<or> userName p \<in> {None, Some []} \<or>
                              userRole p \<in> {None, Some []}
                           then missing_parameters else invalid_user_role))]
               else [])\<rparr> \<and>
         on_message w userId ws (json (join_room None)) now =
           w\<lparr>wire := wire w @
              (if readyState w ws = OPEN
               then [(if sendThrows w ws then SendFailed ws else Sent ws) (error_reply type_error)]
               else [])\<rparr>"
  using assms
  by (auto simp: on_message_def handleMessage_def caught_def handleJoinRoom_def
      sendError_def sendToUser_def split: option.splits)

theorem join_validation_witness:
  "(userRole \<lparr>roomName = Some ''beta'', userName = Some ''Alice'', userRole = Some ''manager''\<rparr>
      \<noteq> Some ''product_manager'' \<and>
    userRole \<lparr>roomName = Some ''beta'', userName = Some ''Alice'', userRole = Some ''manager''\<rparr>
      \<noteq> Some ''developer'') \<and>
   on_message alice_and_bob 0 10
     (json (join_room (Some \<lparr>roomName = Some ''beta'', userName = Some ''Alice'',
                              userRole = Some ''manager''\<rparr>))) 105
     = alice_and_bob\<lparr>wire := wire_two @ [Sent 10 (error_reply invalid_user_role)]\<rparr>"
  using join_validation [of "\<lparr>roomName = Some ''beta'', userName = Some ''Alice'',
                              userRole = Some ''manager''\<rparr>" alice_and_bob 0 10 105]
  by (simp add: alice_and_bob_def)

subsection \<open>Failing commands; connection and disconnection\<close>








subsection \<open>The notifications of a join\<close>

lemma on_message_join_valid:
  assumes "rn \<noteq> []" "un \<noteq> []" "ur = ''product_manager'' \<or> ur = ''developer''"
  shows "on_message w userId ws (join_as rn un ur) now = join_validated w userId ws rn un ur now"
  using assms
  by (auto simp: on_message_def handleMessage_def caught_def handleJoinRoom_def join_as_def)

lemma attempt_after_leave [simp]: "attempt (handleLeaveRoom w userId now) = attempt w"
  by (simp add: attempt_def fun_eq_iff)

lemma deliveries_after_leave [simp]: "deliveries (handleLeaveRoom w userId now) = deliveries w"
  by (simp add: deliveries_def fun_eq_iff)

lemma deliveries_append:
  "deliveries w (xs @ ys) m ex = deliveries w xs m ex @ deliveries w ys m ex"
  by (simp add: deliveries_def)

lemma join_validated_existing:
  assumes C: "consistent w"
    and f: "find (\<lambda>(k, r). room_name r = rn) (rooms (handleLeaveRoom w userId now)) = Some (k, r)"
  shows "join_validated w userId ws rn un ur now =
           joined_world (handleLeaveRoom w userId now) userId ws un k r
             (joined_user userId ws un ur k now) (uuid_next (handleLeaveRoom w userId now)) now"
    and "map_of (rooms (handleLeaveRoom w userId now)) k = Some r"
    and "room_name r = rn" and "room_id r = k"
    and "AList.update userId user (room_users r) = room_users r @ [(userId, user)]"
    and "map_of (room_users r) userId = None"
proof -
  let ?w1 = "handleLeaveRoom w userId now"
  from leave_consistent [OF C] have C1: "consistent ?w1" .
  then have K1: "inv_keys ?w1" and M1: "inv_members ?w1" by (simp_all add: consistent_def)
  from K1 have "distinct (map fst (rooms ?w1))" by (simp add: inv_keys_def)
  from find_Some_names [OF this f]
  show r: "map_of (rooms ?w1) k = Some r" and n: "room_name r = rn" by simp_all
  from K1 r show id: "room_id r = k" by (simp add: inv_keys_def)
  from C have "map_of (users ?w1) userId = None"
    by (intro leave_removes_user) (simp_all add: consistent_def)
  from not_member_without_user [OF M1 this r]
  show nm: "map_of (room_users r) userId = None" .
  then show "AList.update userId user (room_users r) = room_users r @ [(userId, user)]"
    by (rule map_of_None_fresh)
  show "join_validated w userId ws rn un ur now =
           joined_world ?w1 userId ws un k r (joined_user userId ws un ur k now) (uuid_next ?w1) now"
    using id r
    by (simp add: join_validated_def find_or_create_room_def f Let_def uuidv4_def sendToUser_eq
        broadcastToRoom_eq getRoomUsers_def sendUserList_def AList.update_conv'
        joined_world_def joined_user_def)
qed

lemma join_validated_created:
  assumes f: "find (\<lambda>(k, r). room_name r = rn) (rooms (handleLeaveRoom w userId now)) = None"
  shows "join_validated w userId ws rn un ur now =
           joined_world (handleLeaveRoom w userId now) userId ws un
             (uuid_next (handleLeaveRoom w userId now))
             (new_room (uuid_next (handleLeaveRoom w userId now)) rn now)
             (joined_user userId ws un ur (uuid_next (handleLeaveRoom w userId now)) now)
             (Suc (uuid_next (handleLeaveRoom w userId now))) now"
  by (simp add: join_validated_def find_or_create_room_def f Let_def uuidv4_def sendToUser_eq
      broadcastToRoom_eq getRoomUsers_def sendUserList_def AList.update_conv'
      joined_world_def joined_user_def new_room_def)

lemma info_of_joined_user [simp]:
  "info_of (joined_user userId ws un ur k now) = UserInfo userId un (as_UserRole ur)"
  by (simp add: info_of_def joined_user_def)

text \<open>
  Claim C4. A valid \<^verbatim>\<open>join_room\<close> adds to the trace, after what the leave of the former room
  added, these entries in this order: on the joiner's socket \<^verbatim>\<open>room_joined\<close> with the
  identifier and the name of the room and the number of members counted with the joiner
  (one more than the room had, 1 for a room just created); on the sockets of the other
  members \<^verbatim>\<open>user_joined\<close>, whose list of users is the membership with the joiner at
  its end; on the joiner's socket \<^verbatim>\<open>user_list\<close> with the same list. Each entry is there
  when the socket is open. A session without a user record has no former room, and the
  leave adds nothing.
\<close>

theorem join_notifications:
  assumes "w = run (WSServer rs st) evs"
    and "rn \<noteq> []" and "un \<noteq> []" and "ur = ''product_manager'' \<or> ur = ''developer''"
  shows "(\<forall>k r. find (\<lambda>(k, r). room_name r = rn) (rooms (handleLeaveRoom w userId now)) = Some (k, r) \<longrightarrow>
            userId \<notin> fst ` set (room_users r) \<and>
            wire (on_message w userId ws (join_as rn un ur) now) =
              wire (handleLeaveRoom w userId now)
              @ attempt w ws (room_joined k rn (Suc (length (room_users r))))
              @ deliveries w (room_users r @ [(userId, joined_user userId ws un ur k now)])
                  (user_joined (UserInfo userId un (as_UserRole ur))
                     (map info_of (map snd (room_users r)) @ [UserInfo userId un (as_UserRole ur)])
                     (SystemMessage (uuid_next (handleLeaveRoom w userId now))
                        (joined_the_room un) now))
                  (Some userId)
              @ attempt w ws
                  (user_list
                     (map info_of (map snd (room_users r)) @ [UserInfo userId un (as_UserRole ur)]))) \<and>
         (find (\<lambda>(k, r). room_name r = rn) (rooms (handleLeaveRoom w userId now)) = None \<longrightarrow>
            wire (on_message w userId ws (join_as rn un ur) now) =
              wire (handleLeaveRoom w userId now)
              @ attempt w ws (room_joined (uuid_next (handleLeaveRoom w userId now)) rn 1)
              @ attempt w ws (user_list [UserInfo userId un (as_UserRole ur)])) \<and>
         (map_of (users w) userId = None \<longrightarrow> wire (handleLeaveRoom w userId now) = wire w)"
proof (intro conjI allI impI)
  from assms(1) have C: "consistent w" by (simp add: run_consistent)
  note V = on_message_join_valid [OF assms(2-4)]
  {
    fix k r
    assume f: "find (\<lambda>(k, r). room_name r = rn) (rooms (handleLeaveRoom w userId now)) = Some (k, r)"
    note J = join_validated_existing [OF C f]
    from J(6) show "userId \<notin> fst ` set (room_users r)" by (simp add: in_keys_iff)
    show "wire (on_message w userId ws (join_as rn un ur) now) =
              wire (handleLeaveRoom w userId now)
              @ attempt w ws (room_joined k rn (Suc (length (room_users r))))
              @ deliveries w (room_users r @ [(userId, joined_user userId ws un ur k now)])
                  (user_joined (UserInfo userId un (as_UserRole ur))
                     (map info_of (map snd (room_users r)) @ [UserInfo userId un (as_UserRole ur)])
                     (SystemMessage (uuid_next (handleLeaveRoom w userId now))
                        (joined_the_room un) now))
                  (Some userId)
              @ attempt w ws
                  (user_list
                     (map info_of (map snd (room_users r)) @ [UserInfo userId un (as_UserRole ur)]))"
      by (simp add: V J(1) joined_world_def Let_def J(3,4,5))
  }
  {
    assume f: "find (\<lambda>(k, r). room_name r = rn) (rooms (handleLeaveRoom w userId now)) = None"
    show "wire (on_message w userId ws (join_as rn un ur) now) =
              wire (handleLeaveRoom w userId now)
              @ attempt w ws (room_joined (uuid_next (handleLeaveRoom w userId now)) rn 1)
              @ attempt w ws (user_list [UserInfo userId un (as_UserRole ur)])"
      by (simp add: V join_validated_created [OF f] joined_world_def Let_def new_room_def
          deliveries_Cons)
  }
  {
    assume "map_of (users w) userId = None"
    then show "wire (handleLeaveRoom w userId now) = wire w"
      by (simp add: handleLeaveRoom_no_user)
  }
qed

subsection \<open>Switching rooms\<close>

theorem join_notifications_witness:
  "run all_open connected = run (WSServer (\<lambda>ws. OPEN) (\<lambda>ws. False)) connected \<and>
   ''alpha'' \<noteq> [] \<and> ''Alice'' \<noteq> [] \<and> ''Bob'' \<noteq> [] \<and>
   map_of (users (run all_open connected)) 0 = None \<and>
   find (\<lambda>(k, r). room_name r = ''alpha'') (rooms (handleLeaveRoom (run all_open connected) 0 100))
     = None \<and>
   wire (on_message (run all_open connected) 0 10 (join_as ''alpha'' ''Alice'' ''product_manager'') 100)
     = wire_connected @
       [Sent 10 (room_joined 2 ''alpha'' 1),
        Sent 10 (user_list [UserInfo 0 ''Alice'' product_manager])] \<and>
   run all_open one_in_alpha = run (WSServer (\<lambda>ws. OPEN) (\<lambda>ws. False)) one_in_alpha \<and>
   find (\<lambda>(k, r). room_name r = ''alpha'') (rooms (handleLeaveRoom (run all_open one_in_alpha) 1 101))
     = Some (2, alpha [(0, Alice)]) \<and>
   wire (on_message (run all_open one_in_alpha) 1 11 (join_as ''alpha'' ''Bob'' ''developer'') 101)
     = wire_one @
       [Sent 11 (room_joined 2 ''alpha'' 2),
        Sent 10 (user_joined (UserInfo 1 ''Bob'' developer)
                   [UserInfo 0 ''Alice'' product_manager, UserInfo 1 ''Bob'' developer]
                   (SystemMessage 4 (joined_the_room ''Bob'') 101)),
        Sent 11 (user_list [UserInfo 0 ''Alice'' product_manager, UserInfo 1 ''Bob'' developer])]"
proof -
  have w0: "run all_open connected = run (WSServer (\<lambda>ws. OPEN) (\<lambda>ws. False)) connected"
    and w1: "run all_open one_in_alpha = run (WSServer (\<lambda>ws. OPEN) (\<lambda>ws. False)) one_in_alpha"
    by (simp_all add: all_open_def)
  have n: "''alpha'' \<noteq> []" "''Alice'' \<noteq> []" "''Bob'' \<noteq> []" by simp_all
  have u0: "map_of (users (run all_open connected)) 0 = None"
    by (simp add: connected_state two_connected_def)
  have u1: "map_of (users (run all_open one_in_alpha)) 1 = None"
    by (simp add: one_in_alpha_state alice_alone_def)
  have l0: "handleLeaveRoom (run all_open connected) 0 100 = two_connected"
    using u0 by (simp add: handleLeaveRoom_no_user connected_state)
  have l1: "handleLeaveRoom (run all_open one_in_alpha) 1 101 = alice_alone"
    "handleLeaveRoom (run all_open one_in_alpha) (Suc 0) 101 = alice_alone"
    using u1 by (simp_all add: handleLeaveRoom_no_user one_in_alpha_state)
  have f0: "find (\<lambda>(k, r). room_name r = ''alpha'')
              (rooms (handleLeaveRoom (run all_open connected) 0 100)) = None"
    by (simp add: l0 two_connected_def)
  have f1: "find (\<lambda>(k, r). room_name r = ''alpha'')
              (rooms (handleLeaveRoom (run all_open one_in_alpha) 1 101))
            = Some (2, alpha [(0, Alice)])"
    by (simp add: l1 alice_alone_def alpha_def)
  have a: "wire (on_message (run all_open connected) 0 10
                   (join_as ''alpha'' ''Alice'' ''product_manager'') 100)
     = wire_connected @
       [Sent 10 (room_joined 2 ''alpha'' 1),
        Sent 10 (user_list [UserInfo 0 ''Alice'' product_manager])]"
    using join_notifications [OF w0 n(1) n(2), of "''product_manager''" 0 100 10,
        THEN conjunct2, THEN conjunct1, rule_format, OF _ f0, unfolded l0]
    by (simp add: connected_state two_connected_def attempt_def as_UserRole_def)
  have b: "wire (on_message (run all_open one_in_alpha) 1 11
                   (join_as ''alpha'' ''Bob'' ''developer'') 101)
     = wire_one @
       [Sent 11 (room_joined 2 ''alpha'' 2),
        Sent 10 (user_joined (UserInfo 1 ''Bob'' developer)
                   [UserInfo 0 ''Alice'' product_manager, UserInfo 1 ''Bob'' developer]
                   (SystemMessage 4 (joined_the_room ''Bob'') 101)),
        Sent 11 (user_list [UserInfo 0 ''Alice'' product_manager, UserInfo 1 ''Bob'' developer])]"
    using join_notifications [OF w1 n(1) n(3), of "''developer''" 1 101 11,
        THEN conjunct1, rule_format, OF _ f1, THEN conjunct2, unfolded l1]
    by (simp add: one_in_alpha_state alice_alone_def attempt_def deliveries_def
        as_UserRole_def alpha_def Alice_def info_of_def joined_user_def)
  from w0 w1 n u0 f0 f1 a b show ?thesis by simp
qed

lemma join_validated_shape:
  assumes C: "consistent w"
  obtains k room0 mid where
    "join_validated w userId ws rn un ur now =
       joined_world (handleLeaveRoom w userId now) userId ws un k room0
         (joined_user userId ws un ur k now) mid now"
    "room_name room0 = rn"
    "map_of (rooms (handleLeaveRoom w userId now)) k = Some room0 \<or>
     map_of (rooms (handleLeaveRoom w userId now)) k = None \<and>
     k = uuid_next (handleLeaveRoom w userId now)"
proof -
  from leave_consistent [OF C] have "inv_keys (handleLeaveRoom w userId now)"
    by (simp add: consistent_def)
  then show ?thesis
  proof (cases rule: join_validated_cases [where rn = rn and ws = ws and un = un and ur = ur])
    case (existing k room0)
    from existing(4,2) existing(1) show ?thesis by (intro that) auto
  next
    case created
    from created(3) created(2) show ?thesis by (intro that) (auto simp: new_room_def)
  qed
qed

text \<open>
  Claim C3. In every state that a run of the server reaches, no session is a member of
  two rooms. When a session that has a user record and a room sends a valid \<^verbatim>\<open>join_room\<close>,
  the join leaves that room first: the trace continues with \<^verbatim>\<open>user_left\<close> on the open
  sockets of the members that remain in the former room; afterwards the session is a
  member of one room only, which carries the requested name; the former room is gone
  from the directory if the session was its only member, and else, when the session
  asked for a room of another name, it is there without the session.
\<close>

theorem join_switches_room:
  fixes w w' :: world and userId :: uuid and ws :: sock and rn un ur :: string and now :: nat
  assumes "w = run (WSServer rs st) evs"
  defines "w' \<equiv> on_message w userId ws (join_as rn un ur) now"
  shows "(\<forall>uid k1 r1 k2 r2.
            (k1, r1) \<in> set (rooms w) \<longrightarrow> (k2, r2) \<in> set (rooms w) \<longrightarrow>
            uid \<in> fst ` set (room_users r1) \<longrightarrow> uid \<in> fst ` set (room_users r2) \<longrightarrow> k1 = k2) \<and>
         (\<forall>user old.
            (userId, ws) \<in> set (listeners w) \<longrightarrow>
            rn \<noteq> [] \<longrightarrow> un \<noteq> [] \<longrightarrow> ur = ''product_manager'' \<or> ur = ''developer'' \<longrightarrow>
            map_of (users w) userId = Some user \<longrightarrow>
            map_of (rooms w) (user_roomId user) = Some old \<longrightarrow>
            (\<exists>!k. \<exists>r. (k, r) \<in> set (rooms w') \<and> userId \<in> fst ` set (room_users r)) \<and>
            (\<exists>k r. (k, r) \<in> set (rooms w') \<and> userId \<in> fst ` set (room_users r) \<and>
                   room_name r = rn) \<and>
            take (length (wire w) +
                  length (deliveries w (AList.delete userId (room_users old))
                            (user_left (info_of user)
                               (map info_of (map snd (AList.delete userId (room_users old))))
                               (SystemMessage (uuid_next w) (left_the_room (user_name user)) now))
                            None))
                 (wire w')
              = wire w @
                deliveries w (AList.delete userId (room_users old))
                  (user_left (info_of user)
                     (map info_of (map snd (AList.delete userId (room_users old))))
                     (SystemMessage (uuid_next w) (left_the_room (user_name user)) now))
                  None \<and>
            (AList.delete userId (room_users old) = [] \<longrightarrow>
               user_roomId user \<notin> fst ` set (rooms w')) \<and>
            (AList.delete userId (room_users old) \<noteq> [] \<longrightarrow> room_name old \<noteq> rn \<longrightarrow>
               map_of (rooms w') (user_roomId user)
                 = Some (old\<lparr>room_users := AList.delete userId (room_users old)\<rparr>)))"
proof (intro conjI allI impI)
  from assms(1) have C: "consistent w" by (simp add: run_consistent)
  then have K: "inv_keys w" by (simp add: consistent_def)
  {
    fix uid k1 r1 k2 r2
    assume "(k1, r1) \<in> set (rooms w)" "(k2, r2) \<in> set (rooms w)"
      "uid \<in> fst ` set (room_users r1)" "uid \<in> fst ` set (room_users r2)"
    then show "k1 = k2" by (rule consistent_at_most_one_room [OF C])
  }
  fix user old
  assume L: "(userId, ws) \<in> set (listeners w)"
    and V: "rn \<noteq> []" "un \<noteq> []" "ur = ''product_manager'' \<or> ur = ''developer''"
    and u: "map_of (users w) userId = Some user"
    and r: "map_of (rooms w) (user_roomId user) = Some old"
  let ?w1 = "handleLeaveRoom w userId now"
  let ?rest = "AList.delete userId (room_users old)"
  let ?old' = "old\<lparr>room_users := ?rest\<rparr>"
  let ?LD = "deliveries w ?rest
               (user_left (info_of user) (map info_of (map snd ?rest))
                  (SystemMessage (uuid_next w) (left_the_room (user_name user)) now))
               None"
  from K r have id: "room_id old = user_roomId user" and lt: "user_roomId user < uuid_next w"
    by (simp_all add: inv_keys_def)
  note LE = handleLeaveRoom_eq [OF u r id]
  have w1_rooms: "rooms ?w1 = (if ?rest = [] then AList.delete (user_roomId user) (rooms w)
                                else AList.update (user_roomId user) ?old' (rooms w))"
    and w1_wire: "wire ?w1 = wire w @ ?LD" and w1_next: "uuid_next ?w1 = Suc (uuid_next w)"
    by (simp_all add: LE id)
  have w': "w' = join_validated w userId ws rn un ur now"
    unfolding w'_def by (rule on_message_join_valid [OF V])
  have C': "consistent w'"
    unfolding w' by (rule join_validated_consistent [OF C L])
  obtain k room0 mid where
    J: "w' = joined_world ?w1 userId ws un k room0 (joined_user userId ws un ur k now) mid now"
    and n0: "room_name room0 = rn"
    and k: "map_of (rooms ?w1) k = Some room0 \<or> map_of (rooms ?w1) k = None \<and> k = uuid_next ?w1"
    unfolding w' by (rule join_validated_shape [OF C])
  let ?user' = "joined_user userId ws un ur k now"
  let ?room = "room0\<lparr>room_users := AList.update userId ?user' (room_users room0)\<rparr>"
  have R': "rooms w' = AList.update k ?room (rooms ?w1)"
    and U': "users w' = AList.update userId ?user' (users ?w1)"
    and W': "wire w' = wire ?w1 @ drop (length (wire ?w1)) (wire w')"
    by (simp_all add: J joined_world_def Let_def)
  have "userId \<in> fst ` set (users w')"
    by (simp add: U' AList.dom_update)
  then show "\<exists>!k. \<exists>r. (k, r) \<in> set (rooms w') \<and> userId \<in> fst ` set (room_users r)"
    by (simp only: consistent_one_room [OF C'])
  have "map_of (rooms w') k = Some ?room" by (simp add: R' AList.update_conv')
  then have "(k, ?room) \<in> set (rooms w')" by (simp add: consistent_room_entry [OF C'])
  moreover have "userId \<in> fst ` set (room_users ?room)" by (simp add: AList.dom_update)
  moreover have "room_name ?room = rn" by (simp add: n0)
  ultimately show "\<exists>k r. (k, r) \<in> set (rooms w') \<and> userId \<in> fst ` set (room_users r) \<and>
                         room_name r = rn"
    by blast
  show "take (length (wire w) + length ?LD) (wire w') = wire w @ ?LD"
    by (subst W') (simp add: w1_wire)
  {
    assume e: "?rest = []"
    then have none: "map_of (rooms ?w1) (user_roomId user) = None"
      by (simp add: w1_rooms AList.delete_conv')
    with k lt have "k \<noteq> user_roomId user" by (auto simp: w1_next)
    with none show "user_roomId user \<notin> fst ` set (rooms w')"
      by (simp add: R' AList.dom_update in_keys_iff)
  }
  {
    assume ne: "?rest \<noteq> []" and nn: "room_name old \<noteq> rn"
    then have some: "map_of (rooms ?w1) (user_roomId user) = Some ?old'"
      by (simp add: w1_rooms AList.update_conv')
    have "k \<noteq> user_roomId user"
    proof
      assume eq: "k = user_roomId user"
      with k some have "room0 = ?old'" by auto
      with n0 nn show False by auto
    qed
    with some show "map_of (rooms w') (user_roomId user) = Some ?old'"
      by (simp add: R' AList.update_conv')
  }
qed

theorem join_switches_room_witness:
  "run all_open two_in_alpha = run (WSServer (\<lambda>ws. OPEN) (\<lambda>ws. False)) two_in_alpha \<and>
   (1, 11) \<in> set (listeners (run all_open two_in_alpha)) \<and>
   ''beta'' \<noteq> [] \<and> ''Bob'' \<noteq> [] \<and>
   map_of (users (run all_open two_in_alpha)) 1 = Some Bob \<and>
   map_of (rooms (run all_open two_in_alpha)) (user_roomId Bob)
     = Some (alpha [(0, Alice), (1, Bob)]) \<and>
   AList.delete 1 (room_users (alpha [(0, Alice), (1, Bob)])) \<noteq> [] \<and>
   room_name (alpha [(0, Alice), (1, Bob)]) \<noteq> ''beta'' \<and>
   map_of (rooms (on_message (run all_open two_in_alpha) 1 11
                    (join_as ''beta'' ''Bob'' ''developer'') 105)) 2
     = Some (alpha [(0, Alice)]) \<and>
   take (length wire_two + 1)
     (wire (on_message (run all_open two_in_alpha) 1 11 (join_as ''beta'' ''Bob'' ''developer'') 105))
     = wire_two @
       [Sent 10 (user_left (UserInfo 1 ''Bob'' developer) [UserInfo 0 ''Alice'' product_manager]
                   (SystemMessage 5 (left_the_room ''Bob'') 105))] \<and>
   (\<exists>!k. \<exists>r. (k, r) \<in> set (rooms (on_message (run all_open two_in_alpha) 1 11
                                      (join_as ''beta'' ''Bob'' ''developer'') 105)) \<and>
               1 \<in> fst ` set (room_users r)) \<and>
   run all_open one_in_alpha = run (WSServer (\<lambda>ws. OPEN) (\<lambda>ws. False)) one_in_alpha \<and>
   (0, 10) \<in> set (listeners (run all_open one_in_alpha)) \<and>
   map_of (users (run all_open one_in_alpha)) 0 = Some Alice \<and>
   map_of (rooms (run all_open one_in_alpha)) (user_roomId Alice) = Some (alpha [(0, Alice)]) \<and>
   AList.delete 0 (room_users (alpha [(0, Alice)])) = [] \<and>
   2 \<notin> fst ` set (rooms (on_message (run all_open one_in_alpha) 0 10
                            (join_as ''beta'' ''Alice'' ''product_manager'') 105))"
proof -
  have w2: "run all_open two_in_alpha = run (WSServer (\<lambda>ws. OPEN) (\<lambda>ws. False)) two_in_alpha"
    and w1: "run all_open one_in_alpha = run (WSServer (\<lambda>ws. OPEN) (\<lambda>ws. False)) one_in_alpha"
    by (simp_all add: all_open_def)
  have n: "''beta'' \<noteq> []" "''Bob'' \<noteq> []" "''Alice'' \<noteq> []" by simp_all
  have v: "''developer'' = ''product_manager'' \<or> ''developer'' = ''developer''"
    "''product_manager'' = ''product_manager'' \<or> ''product_manager'' = ''developer''"
    by simp_all
  have l2: "(1, 11) \<in> set (listeners (run all_open two_in_alpha))"
    and u2: "map_of (users (run all_open two_in_alpha)) 1 = Some Bob"
    and r2: "map_of (rooms (run all_open two_in_alpha)) (user_roomId Bob)
               = Some (alpha [(0, Alice), (1, Bob)])"
    by (simp_all add: two_in_alpha_state alice_and_bob_def Bob_def)
  have l1: "(0, 10) \<in> set (listeners (run all_open one_in_alpha))"
    and u1: "map_of (users (run all_open one_in_alpha)) 0 = Some Alice"
    and r1: "map_of (rooms (run all_open one_in_alpha)) (user_roomId Alice)
               = Some (alpha [(0, Alice)])"
    by (simp_all add: one_in_alpha_state alice_alone_def Alice_def)
  have d2: "AList.delete 1 (room_users (alpha [(0, Alice), (1, Bob)])) \<noteq> []"
    and d1: "AList.delete 0 (room_users (alpha [(0, Alice)])) = []"
    and m2: "room_name (alpha [(0, Alice), (1, Bob)]) \<noteq> ''beta''"
    by (simp_all add: alpha_def)
  note T2 = join_switches_room [OF w2, where userId = 1 and ws = 11 and rn = "''beta''"
      and un = "''Bob''" and ur = "''developer''" and now = 105,
      THEN conjunct2, rule_format, OF l2 n(1) n(2) v(1) u2 r2]
  note T1 = join_switches_room [OF w1, where userId = 0 and ws = 10 and rn = "''beta''"
      and un = "''Alice''" and ur = "''product_manager''" and now = 105,
      THEN conjunct2, rule_format, OF l1 n(1) n(3) v(2) u1 r1]
  from T2 have a: "\<exists>!k. \<exists>r. (k, r) \<in> set (rooms (on_message (run all_open two_in_alpha) 1 11
                                      (join_as ''beta'' ''Bob'' ''developer'') 105)) \<and>
               1 \<in> fst ` set (room_users r)"
    by (rule conjunct1)
  from T2 [THEN conjunct2, THEN conjunct2, THEN conjunct1]
  have b: "take (length wire_two + 1)
     (wire (on_message (run all_open two_in_alpha) 1 11 (join_as ''beta'' ''Bob'' ''developer'') 105))
     = wire_two @
       [Sent 10 (user_left (UserInfo 1 ''Bob'' developer) [UserInfo 0 ''Alice'' product_manager]
                   (SystemMessage 5 (left_the_room ''Bob'') 105))]"
    by (simp add: two_in_alpha_state alice_and_bob_def alpha_def deliveries_def attempt_def
        info_of_def Alice_def Bob_def)
  from T2 [THEN conjunct2, THEN conjunct2, THEN conjunct2, THEN conjunct2, rule_format, OF d2 m2]
  have c: "map_of (rooms (on_message (run all_open two_in_alpha) 1 11
                    (join_as ''beta'' ''Bob'' ''developer'') 105)) 2
     = Some (alpha [(0, Alice)])"
    by (simp add: alpha_def Bob_def)
  from T1 [THEN conjunct2, THEN conjunct2, THEN conjunct2, THEN conjunct1, rule_format, OF d1]
  have d: "2 \<notin> fst ` set (rooms (on_message (run all_open one_in_alpha) 0 10
                            (join_as ''beta'' ''Alice'' ''product_manager'') 105))"
    by (simp add: Alice_def)
  show ?thesis
    by (intro conjI w2 w1 n l2 u2 r2 l1 u1 r1 d2 d1 m2 a b c d)
qed

end
